theory Spec2Isabelle
  imports Complex_Main "HOL-Library.Log_Nat"
begin

section \<open>Introspection servers: addresses\<close>

text \<open>
  \<^verbatim>\<open>HOST, PORT = "localhost", 3214\<close> (worker.py, line 16). The two daemon workers
  open their listeners with \<^verbatim>\<open>ReusableTCPServer((HOST, PORT), LogTCPHandler)\<close> and
  \<^verbatim>\<open>ReusableTCPServer((HOST, PORT + 1), MonitorTCPHandler)\<close>; the server class
  sets the class attribute \<^verbatim>\<open>allow_reuse_address = True\<close>.
\<close>

definition HOST :: string where
  "HOST = ''localhost''"

definition PORT :: int where
  "PORT = 3214"

record tcp_server =
  server_address :: "string \<times> int"
  allow_reuse_address :: bool

text \<open>\<^verbatim>\<open>class ReusableTCPServer(socketserver.TCPServer)\<close>: the constructor call.\<close>

definition ReusableTCPServer :: "string \<times> int \<Rightarrow> tcp_server" where
  "ReusableTCPServer addr = \<lparr>server_address = addr, allow_reuse_address = True\<rparr>"

text \<open>The server opened by \<^verbatim>\<open>LogCaptureWorker.run\<close>.\<close>

definition log_server :: tcp_server where
  "log_server = ReusableTCPServer (HOST, PORT)"

text \<open>The server opened by \<^verbatim>\<open>StateMonitorWorker.run\<close>.\<close>

definition monitor_server :: tcp_server where
  "monitor_server = ReusableTCPServer (HOST, PORT + 1)"


section \<open>The log buffer\<close>

text \<open>
  \<^verbatim>\<open>self.manticore._log_queue\<close> is a standard-library queue whose construction (and so
  its capacity) is outside worker.py: the capacity is the field \<open>maxsize\<close>. The
  queue's methods follow the library's sequential meaning: \<^verbatim>\<open>full()\<close> is
  \<^verbatim>\<open>0 < maxsize <= qsize()\<close> (a capacity \<open>\<le> 0\<close> means unbounded), \<^verbatim>\<open>get()\<close>
  removes the oldest item and blocks on an empty queue, \<^verbatim>\<open>put()\<close> appends and blocks
  on a full one. A call that blocks does not return: it is the value \<open>None\<close>.
\<close>

record log_queue =
  maxsize :: int
  items :: "string list"

definition qsize :: "log_queue \<Rightarrow> nat" where
  "qsize q = length (items q)"

definition full :: "log_queue \<Rightarrow> bool" where
  "full q = (0 < maxsize q \<and> maxsize q \<le> int (qsize q))"

definition empty :: "log_queue \<Rightarrow> bool" where
  "empty q = (qsize q = 0)"

definition get :: "log_queue \<Rightarrow> (string \<times> log_queue) option" where
  "get q = (case items q of [] \<Rightarrow> None | x # xs \<Rightarrow> Some (x, q\<lparr>items := xs\<rparr>))"

definition put :: "string \<Rightarrow> log_queue \<Rightarrow> log_queue option" where
  "put msg q = (if full q then None else Some (q\<lparr>items := items q @ [msg]\<rparr>))"

text \<open>
  \<^verbatim>\<open>LogCaptureWorker.log_callback\<close> (lines 279-283):
  \<^verbatim>\<open>if q.full(): q.get()\<close> and then \<^verbatim>\<open>q.put(msg)\<close>.
\<close>

definition log_callback :: "string \<Rightarrow> log_queue \<Rightarrow> log_queue option" where
  "log_callback msg q =
     (case (if full q then map_option snd (get q) else Some q) of
        None \<Rightarrow> None
      | Some q1 \<Rightarrow> put msg q1)"

text \<open>
  \<^verbatim>\<open>LogCaptureWorker.dump_logs\<close> (lines 285-294). The loop
  \<^verbatim>\<open>while i < 50 and not q.empty()\<close> appends \<^verbatim>\<open>LogMessage(content=q.get())\<close> to
  the message list; the message list is modelled by the list of the contents, in
  the order of the appends. The worker's flag \<open>activated\<close> is set first.
\<close>

function dump_loop :: "nat \<Rightarrow> log_queue \<Rightarrow> string list \<Rightarrow> (string list \<times> log_queue) option" where
  "dump_loop i q messages =
     (if i < 50 \<and> \<not> empty q then
        (case get q of
           None \<Rightarrow> None
         | Some (content, q') \<Rightarrow> dump_loop (i + 1) q' (messages @ [content]))
      else Some (messages, q))"
  by pat_completeness auto
termination
  by (relation "measure (\<lambda>(i, q, messages). 50 - i)") auto

declare dump_loop.simps [simp del]

record log_capture_worker =
  activated :: bool
  log_queue :: log_queue

definition dump_logs :: "log_capture_worker \<Rightarrow> (string list \<times> log_capture_worker) option" where
  "dump_logs self =
     (case dump_loop 0 (log_queue self) [] of
        None \<Rightarrow> None
      | Some (messages, q') \<Rightarrow> Some (messages, \<lparr>activated = True, log_queue = q'\<rparr>))"

text \<open>The queue never holds more than its capacity.\<close>

definition queue_ok :: "log_queue \<Rightarrow> bool" where
  "queue_ok q = (maxsize q \<le> 0 \<or> int (qsize q) \<le> maxsize q)"


section \<open>Execution units: the run-loop of \<^verbatim>\<open>Worker.run\<close>\<close>

subsection \<open>Signals, states and the calls a unit makes\<close>

text \<open>
  The exceptions are those of Python's class \<^verbatim>\<open>Exception\<close>, which is what the outer
  handler \<^verbatim>\<open>except (Exception, AssertionError)\<close> catches. \<^verbatim>\<open>Concretize\<close> carries
  \<^verbatim>\<open>message\<close>, \<^verbatim>\<open>expression\<close>, \<^verbatim>\<open>policy\<close> and \<^verbatim>\<open>setstate\<close>; the symbolic
  expression, the policy and the callback are opaque to the worker and are named by
  strings. A keyboard interrupt is not an \<^verbatim>\<open>Exception\<close>; \<^verbatim>\<open>WithKeyboardInterruptAs\<close>
  turns it into a call of \<^verbatim>\<open>m.kill\<close>, which is seen here as the kill flag.
\<close>

datatype exc =
    Concretize (message: string) (expression: string) (policy: string) (setstate: string)
  | TerminateState string
  | AssertionError
  | AttributeError
  | Exception string

text \<open>
  An exploration state, as far as the worker touches it: the property \<^verbatim>\<open>id\<close>, the
  attribute \<^verbatim>\<open>_terminated_by\<close>, and the rest of the object, which only
  \<^verbatim>\<open>execute()\<close> changes.
\<close>

record state =
  id_of :: int
  terminated_by :: "exc option"
  image :: nat

datatype arg = WorkerArg int | StateArg "state option" | ExcArg exc

text \<open>The calls \<^verbatim>\<open>Worker.run\<close> makes on its collaborators, with their arguments.\<close>

datatype call =
    Call_publish string "arg list"
  | Call_get_state
  | Call_execute state
  | Call_save state int
  | Call_revive_state int
  | Call_fork "state option" string string string
  | Call_terminate_state int
  | Call_kill_state int

text \<open>
  The collaborators are not part of worker.py: the coordinator \<^verbatim>\<open>m\<close> (its methods
  \<^verbatim>\<open>_get_state\<close>, \<^verbatim>\<open>_save\<close>, \<^verbatim>\<open>_revive_state\<close>, \<^verbatim>\<open>_fork\<close>,
  \<^verbatim>\<open>_terminate_state\<close>, \<^verbatim>\<open>_kill_state\<close>, \<^verbatim>\<open>_publish\<close>, the flag
  \<^verbatim>\<open>_killed.value\<close> and the lists \<^verbatim>\<open>_busy_states\<close>, \<^verbatim>\<open>_ready_states\<close>) and
  the state's own \<^verbatim>\<open>execute\<close>. They are parameters: functions on a world \<open>'w\<close>
  that stands for everything outside the unit (the registry, the other units, the
  plugins). Every call may raise (\<open>Inl\<close>) or return (\<open>Inr\<close>), and changes the world;
  what other units do in the meantime is part of the change. \<^verbatim>\<open>execute\<close> also
  returns the state object as the step left it.
\<close>

record 'w manticore =
  killed_value :: "'w \<Rightarrow> bool"
  busy_states :: "'w \<Rightarrow> int list"
  ready_states :: "'w \<Rightarrow> int list"
  get_state :: "'w \<Rightarrow> (exc + state option) \<times> 'w"
  execute :: "state \<Rightarrow> 'w \<Rightarrow> (exc + unit) \<times> state \<times> 'w"
  save :: "state \<Rightarrow> int \<Rightarrow> 'w \<Rightarrow> (exc + unit) \<times> 'w"
  revive_state :: "int \<Rightarrow> 'w \<Rightarrow> (exc + unit) \<times> 'w"
  fork :: "state option \<Rightarrow> string \<Rightarrow> string \<Rightarrow> string \<Rightarrow> 'w \<Rightarrow> (exc + int option) \<times> 'w"
  terminate_state :: "int \<Rightarrow> 'w \<Rightarrow> (exc + unit) \<times> 'w"
  kill_state :: "int \<Rightarrow> 'w \<Rightarrow> (exc + unit) \<times> 'w"
  publish :: "string \<Rightarrow> arg list \<Rightarrow> 'w \<Rightarrow> (exc + unit) \<times> 'w"

subsection \<open>Control flow\<close>

text \<open>
  How a block of the loop body ends: it runs to its end, it executes \<^verbatim>\<open>break\<close>,
  or it raises. A block's result is this, the local variable \<^verbatim>\<open>current_state\<close>,
  the world, and the calls made, oldest first.
\<close>

datatype flow = Fallthrough | BreakLoop | Raised exc

type_synonym 'w outcome = "flow \<times> state option \<times> 'w \<times> call list"

definition after :: "call list \<Rightarrow> 'w outcome \<Rightarrow> 'w outcome" where
  "after cs r = (case r of (f, cur, w, tr) \<Rightarrow> (f, cur, w, cs @ tr))"

definition trace_of :: "'w outcome \<Rightarrow> call list" where
  "trace_of r = (case r of (f, cur, w, tr) \<Rightarrow> tr)"

text \<open>
  A straight run of call statements whose results are not used: the first call that
  raises ends the run.
\<close>

fun statements :: "(call \<times> ('w \<Rightarrow> (exc + unit) \<times> 'w)) list \<Rightarrow> 'w \<Rightarrow> exc option \<times> 'w \<times> call list" where
  "statements [] w = (None, w, [])"
| "statements ((c, f) # rest) w =
     (case f w of
        (Inl e, w') \<Rightarrow> (Some e, w', [c])
      | (Inr u, w') \<Rightarrow> (case statements rest w' of (r, w'', cs) \<Rightarrow> (r, w'', c # cs)))"

subsection \<open>The drive step (lines 127-139)\<close>

text \<open>
  The \<^verbatim>\<open>else\<close> branch of the inner \<^verbatim>\<open>while\<close>, entered when the kill flag is read
  true: \<^verbatim>\<open>m._save(current_state, state_id=current_state.id)\<close>,
  \<^verbatim>\<open>m._revive_state(current_state.id)\<close>, \<^verbatim>\<open>current_state = None\<close>.
\<close>

definition stopped :: "'w manticore \<Rightarrow> state \<Rightarrow> 'w \<Rightarrow> 'w outcome" where
  "stopped m s w =
     (case statements
             [(Call_save s (id_of s), save m s (id_of s)),
              (Call_revive_state (id_of s), revive_state m (id_of s))] w of
        (Some e, w', cs) \<Rightarrow> (Raised e, Some s, w', cs)
      | (None, w', cs) \<Rightarrow> (Fallthrough, None, w', cs))"

text \<open>
  \<^verbatim>\<open>while not m._killed.value: current_state.execute()\<close> with its \<^verbatim>\<open>else\<close>. The
  loop has no bound of its own: the first argument bounds the number of times the
  flag is read, and \<open>None\<close> says that the bound was reached.
\<close>

fun drive :: "nat \<Rightarrow> 'w manticore \<Rightarrow> state \<Rightarrow> 'w \<Rightarrow> 'w outcome option" where
  "drive 0 m s w = None"
| "drive (Suc n) m s w =
     (if \<not> killed_value m w then
        (case execute m s w of
           (Inl e, s', w') \<Rightarrow> Some (Raised e, Some s', w', [Call_execute s])
         | (Inr u, s', w') \<Rightarrow> map_option (after [Call_execute s]) (drive n m s' w'))
      else Some (stopped m s w))"

text \<open>\<^verbatim>\<open>assert current_state is None\<close> (line 139).\<close>

definition assert_released :: "'w outcome \<Rightarrow> 'w outcome" where
  "assert_released r =
     (case r of
        (Fallthrough, Some s, w, tr) \<Rightarrow> (Raised AssertionError, Some s, w, tr)
      | _ \<Rightarrow> r)"

subsection \<open>The body of the inner \<^verbatim>\<open>try\<close> (lines 107-139)\<close>

text \<open>
  The assertion of lines 120-123:
  \<^verbatim>\<open>current_state.id in m._busy_states and current_state.id not in m._ready_states\<close>.
\<close>

definition acquired_ok :: "'w manticore \<Rightarrow> state \<Rightarrow> 'w \<Rightarrow> bool" where
  "acquired_ok m s w = (id_of s \<in> set (busy_states m w) \<and> id_of s \<notin> set (ready_states m w))"

text \<open>
  \<^verbatim>\<open>current_state = m._get_state(wait=True)\<close>: when the call raises, the assignment
  does not happen and \<^verbatim>\<open>current_state\<close> keeps its value.
\<close>

definition try_body :: "nat \<Rightarrow> 'w manticore \<Rightarrow> state option \<Rightarrow> 'w \<Rightarrow> 'w outcome option" where
  "try_body n m cur w =
     (case get_state m w of
        (Inl e, w1) \<Rightarrow> Some (Raised e, cur, w1, [Call_get_state])
      | (Inr None, w1) \<Rightarrow> Some (BreakLoop, None, w1, [Call_get_state])
      | (Inr (Some s), w1) \<Rightarrow>
          (if acquired_ok m s w1
           then map_option (\<lambda>r. after [Call_get_state] (assert_released r)) (drive n m s w1)
           else Some (Raised AssertionError, Some s, w1, [Call_get_state])))"

subsection \<open>The handlers of the inner \<^verbatim>\<open>try\<close> (lines 141-167)\<close>

text \<open>
  \<^verbatim>\<open>except Concretize as exc\<close>: the statement
  \<^verbatim>\<open>m._fork(current_state, exc.expression, exc.policy, exc.setstate)\<close>, whose value is
  not bound to anything, and then \<^verbatim>\<open>current_state = None\<close>.

  \<^verbatim>\<open>except TerminateState as exc\<close>: \<^verbatim>\<open>m._publish("will_terminate_state", ...)\<close>,
  the assignment \<^verbatim>\<open>current_state._terminated_by = exc\<close> (an \<^verbatim>\<open>AttributeError\<close> when
  \<^verbatim>\<open>current_state\<close> is \<^verbatim>\<open>None\<close>), \<^verbatim>\<open>m._save\<close>, \<^verbatim>\<open>m._terminate_state\<close>,
  \<^verbatim>\<open>m._publish("did_terminate_state", ...)\<close>, and \<^verbatim>\<open>current_state = None\<close>.

  Any other exception is not caught at this level.
\<close>

fun except_signal :: "'w manticore \<Rightarrow> exc \<Rightarrow> state option \<Rightarrow> 'w \<Rightarrow> 'w outcome" where
  "except_signal m (Concretize msg expr pol sets) cur w =
     (case fork m cur expr pol sets w of
        (Inl e, w') \<Rightarrow> (Raised e, cur, w', [Call_fork cur expr pol sets])
      | (Inr ret, w') \<Rightarrow> (Fallthrough, None, w', [Call_fork cur expr pol sets]))"
| "except_signal m (TerminateState reason) cur w =
     (case publish m ''will_terminate_state'' [StateArg cur, ExcArg (TerminateState reason)] w of
        (Inl e, w') \<Rightarrow>
          (Raised e, cur, w', [Call_publish ''will_terminate_state'' [StateArg cur, ExcArg (TerminateState reason)]])
      | (Inr u, w') \<Rightarrow>
          after [Call_publish ''will_terminate_state'' [StateArg cur, ExcArg (TerminateState reason)]]
            (case cur of
               None \<Rightarrow> (Raised AttributeError, None, w', [])
             | Some s0 \<Rightarrow>
                 (let s = s0\<lparr>terminated_by := Some (TerminateState reason)\<rparr> in
                  case statements
                         [(Call_save s (id_of s), save m s (id_of s)),
                          (Call_terminate_state (id_of s), terminate_state m (id_of s)),
                          (Call_publish ''did_terminate_state'' [StateArg (Some s), ExcArg (TerminateState reason)],
                           publish m ''did_terminate_state'' [StateArg (Some s), ExcArg (TerminateState reason)])] w' of
                    (Some e, w'', cs) \<Rightarrow> (Raised e, Some s, w'', cs)
                  | (None, w'', cs) \<Rightarrow> (Fallthrough, None, w'', cs))))"
| "except_signal m e cur w = (Raised e, cur, w, [])"

text \<open>The inner \<^verbatim>\<open>try\<close> statement: its body, then the handler of what the body raised.\<close>

definition inner_try :: "nat \<Rightarrow> 'w manticore \<Rightarrow> state option \<Rightarrow> 'w \<Rightarrow> 'w outcome option" where
  "inner_try n m cur w =
     (case try_body n m cur w of
        None \<Rightarrow> None
      | Some (Raised e, cur', w', tr) \<Rightarrow> Some (after tr (except_signal m e cur' w'))
      | Some r \<Rightarrow> Some r)"

subsection \<open>The outer guard (lines 169-187)\<close>

text \<open>
  \<^verbatim>\<open>except (Exception, AssertionError) as exc\<close>: when \<^verbatim>\<open>current_state\<close> is not
  \<^verbatim>\<open>None\<close>, \<^verbatim>\<open>m._publish("will_kill_state", ...)\<close>, \<^verbatim>\<open>m._save\<close>,
  \<^verbatim>\<open>m._kill_state\<close>, \<^verbatim>\<open>m._publish("did_kill_state", ...)\<close> and
  \<^verbatim>\<open>current_state = None\<close>; then \<^verbatim>\<open>break\<close> in either case. An exception raised
  here is caught by nothing in \<^verbatim>\<open>run\<close>. (The calls of the logger are left out.)
\<close>

definition except_fatal :: "'w manticore \<Rightarrow> exc \<Rightarrow> state option \<Rightarrow> 'w \<Rightarrow> 'w outcome" where
  "except_fatal m e cur w =
     (case cur of
        None \<Rightarrow> (BreakLoop, None, w, [])
      | Some s \<Rightarrow>
          (case statements
                  [(Call_publish ''will_kill_state'' [StateArg (Some s), ExcArg e],
                    publish m ''will_kill_state'' [StateArg (Some s), ExcArg e]),
                   (Call_save s (id_of s), save m s (id_of s)),
                   (Call_kill_state (id_of s), kill_state m (id_of s)),
                   (Call_publish ''did_kill_state'' [StateArg (Some s), ExcArg e],
                    publish m ''did_kill_state'' [StateArg (Some s), ExcArg e])] w of
             (Some e', w', cs) \<Rightarrow> (Raised e', Some s, w', cs)
           | (None, w', cs) \<Rightarrow> (BreakLoop, None, w', cs)))"

text \<open>The calls that only the outer guard's kill sequence and the checkpoints make.\<close>

fun kill_step :: "call \<Rightarrow> bool" where
  "kill_step (Call_save s i) = True"
| "kill_step (Call_kill_state i) = True"
| "kill_step (Call_publish name args) = (name = ''will_kill_state'' \<or> name = ''did_kill_state'')"
| "kill_step c = False"

text \<open>One pass through the body of the outer \<^verbatim>\<open>while\<close>: the outer \<^verbatim>\<open>try\<close> statement.\<close>

definition iteration :: "nat \<Rightarrow> 'w manticore \<Rightarrow> state option \<Rightarrow> 'w \<Rightarrow> 'w outcome option" where
  "iteration n m cur w =
     (case inner_try n m cur w of
        None \<Rightarrow> None
      | Some (Raised e, cur', w', tr) \<Rightarrow> Some (after tr (except_fatal m e cur' w'))
      | Some r \<Rightarrow> Some r)"

subsection \<open>The loop and \<^verbatim>\<open>run\<close> (lines 77-192)\<close>

text \<open>
  \<^verbatim>\<open>while not m._killed.value:\<close> around the outer \<^verbatim>\<open>try\<close>. The first argument bounds
  the number of passes (and, in each pass, the drive step); \<open>None\<close> says that the bound
  was reached. The result \<open>Fallthrough\<close> is the loop left, by the flag or by \<^verbatim>\<open>break\<close>.
\<close>

fun mainloop :: "nat \<Rightarrow> 'w manticore \<Rightarrow> state option \<Rightarrow> 'w \<Rightarrow> 'w outcome option" where
  "mainloop 0 m cur w = None"
| "mainloop (Suc n) m cur w =
     (if \<not> killed_value m w then
        (case iteration n m cur w of
           None \<Rightarrow> None
         | Some (Fallthrough, cur', w', tr) \<Rightarrow> map_option (after tr) (mainloop n m cur' w')
         | Some (BreakLoop, cur', w', tr) \<Rightarrow> Some (Fallthrough, cur', w', tr)
         | Some (Raised e, cur', w', tr) \<Rightarrow> Some (Raised e, cur', w', tr))
      else Some (Fallthrough, cur, w, []))"

text \<open>
  After the loop (lines 189-192): \<^verbatim>\<open>m._publish("did_terminate_worker", self.id)\<close>,
  which an exception on its way out of the loop skips. The result is how the call of
  \<^verbatim>\<open>run\<close> ends (\<open>Inr\<close>: it returns; \<open>Inl\<close>: an exception leaves it), the world
  and the calls made.
\<close>

definition getting_out :: "'w manticore \<Rightarrow> int \<Rightarrow> 'w outcome \<Rightarrow> (exc + unit) \<times> 'w \<times> call list" where
  "getting_out m self_id r =
     (case r of
        (Raised e, cur, w, tr) \<Rightarrow> (Inl e, w, tr)
      | (f, cur, w, tr) \<Rightarrow>
          (case publish m ''did_terminate_worker'' [WorkerArg self_id] w of
             (res, w') \<Rightarrow> (res, w', tr @ [Call_publish ''did_terminate_worker'' [WorkerArg self_id]])))"

text \<open>
  \<^verbatim>\<open>Worker.run\<close>: \<^verbatim>\<open>current_state = None\<close>, \<^verbatim>\<open>m._publish("will_start_worker", self.id)\<close>,
  the loop, and the lines after it.
\<close>

definition run :: "nat \<Rightarrow> 'w manticore \<Rightarrow> int \<Rightarrow> 'w \<Rightarrow> ((exc + unit) \<times> 'w \<times> call list) option" where
  "run n m self_id w =
     (case publish m ''will_start_worker'' [WorkerArg self_id] w of
        (Inl e, w1) \<Rightarrow> Some (Inl e, w1, [Call_publish ''will_start_worker'' [WorkerArg self_id]])
      | (Inr u, w1) \<Rightarrow>
          map_option
            (\<lambda>r. case getting_out m self_id r of
                   (res, w2, tr) \<Rightarrow> (res, w2, Call_publish ''will_start_worker'' [WorkerArg self_id] # tr))
            (mainloop n m None w1))"


section \<open>The state registry\<close>

text \<open>
  Modelled from the spec: the registry of the coordinator, whose class worker.py
  only uses. Sections 3 and 4.2: the lists of ready, busy, terminated and killed ids,
  the map from ids to states, the kill flag, and a counter for fresh ids. The
  operations below are written for one caller at a time.
\<close>

record registry =
  ready :: "int list"
  busy :: "int list"
  terminated :: "int list"
  killed :: "int list"
  states :: "(int \<times> state) list"
  kill_flag :: bool
  next_id :: int

text \<open>
  Modelled from the spec: the registry invariant, which worker.py does not contain.
  "Four disjoint sets of ids plus the full id to state map; the union of the four
  sets equals the key set of the map; every id appears in exactly one set."
\<close>

definition registry_ok :: "registry \<Rightarrow> bool" where
  "registry_ok r =
     (distinct (ready r @ busy r @ terminated r @ killed r) \<and>
      set (map fst (states r)) = set (ready r @ busy r @ terminated r @ killed r))"

text \<open>
  Modelled from the spec: \<^verbatim>\<open>getState\<close>, which worker.py only calls. "Atomically
  moves one id from ready to busy and returns it"; "any unit may pick up any ready
  id", so the caller's pick is the argument \<open>k\<close>. The wait on an empty ready list is
  for other units; for a single caller the call is taken at its return, which on an
  empty ready list is "none".
\<close>

definition getState :: "nat \<Rightarrow> registry \<Rightarrow> int option \<times> registry" where
  "getState k r =
     (if ready r = [] then (None, r)
      else (let i = ready r ! (k mod length (ready r))
            in (Some i, r\<lparr>ready := remove1 i (ready r), busy := busy r @ [i]\<rparr>)))"

text \<open>
  Modelled from the spec: \<^verbatim>\<open>save\<close>, which worker.py only calls. "Persists/updates
  the in-registry record for an id without changing its list membership; idempotent."
\<close>

definition saveState :: "state \<Rightarrow> int \<Rightarrow> registry \<Rightarrow> registry" where
  "saveState s i r = r\<lparr>states := (i, s) # filter (\<lambda>p. fst p \<noteq> i) (states r)\<rparr>"

text \<open>
  Modelled from the spec: \<^verbatim>\<open>revive\<close>, \<^verbatim>\<open>terminateState\<close> and \<^verbatim>\<open>killState\<close>, which
  worker.py only calls. "Moves an id from busy back to ready", "moves an id from busy
  to terminated / killed"; on an id that is not in busy the call is a contract
  violation, the value \<open>None\<close>.
\<close>

definition reviveState :: "int \<Rightarrow> registry \<Rightarrow> registry option" where
  "reviveState i r =
     (if i \<in> set (busy r)
      then Some (r\<lparr>busy := remove1 i (busy r), ready := ready r @ [i]\<rparr>)
      else None)"

definition terminateState :: "int \<Rightarrow> registry \<Rightarrow> registry option" where
  "terminateState i r =
     (if i \<in> set (busy r)
      then Some (r\<lparr>busy := remove1 i (busy r), terminated := terminated r @ [i]\<rparr>)
      else None)"

definition killState :: "int \<Rightarrow> registry \<Rightarrow> registry option" where
  "killState i r =
     (if i \<in> set (busy r)
      then Some (r\<lparr>busy := remove1 i (busy r), killed := killed r @ [i]\<rparr>)
      else None)"

text \<open>
  Modelled from the spec: \<^verbatim>\<open>fork\<close>, which worker.py only calls. The policy resolves
  the condition into \<open>n\<close> branches (the solver is outside the specification: \<open>n\<close> is
  an argument), each branch gets a successor with a fresh id, the successors go to
  ready, and the forking state is consumed. "May return one successor's id directly
  instead of inserting it, in which case that id is not placed in any list yet":
  \<open>keep\<close> is the branch handed back, if any.
\<close>

definition forkState :: "nat \<Rightarrow> nat option \<Rightarrow> state \<Rightarrow> registry \<Rightarrow> int option \<times> registry" where
  "forkState n keep s r =
     (let ids = map (\<lambda>k. next_id r + int k) [0..<n];
          kept = (case keep of None \<Rightarrow> None | Some k \<Rightarrow> (if k < n then Some (ids ! k) else None));
          queued = filter (\<lambda>i. Some i \<noteq> kept) ids
      in (kept,
          r\<lparr>ready := ready r @ queued,
            busy := remove1 (id_of s) (busy r),
            states := map (\<lambda>i. (i, s\<lparr>id_of := i\<rparr>)) queued @ filter (\<lambda>p. fst p \<noteq> id_of s) (states r),
            next_id := next_id r + int n\<rparr>))"


section \<open>A coordinator over the registry\<close>

text \<open>
  A coordinator to run the loop on: the registry above, a script for what the
  successive calls of \<^verbatim>\<open>execute\<close> do (a step completes, raises, or completes while
  somebody requests the kill), the number of branches the solver finds for a
  condition, and a list of method names whose next call raises.
\<close>

datatype step = Advance | Signal exc | KillRequest

record world =
  registry :: registry
  steps :: "step list"
  solver :: "(string \<times> nat) list"
  keep :: "nat option"
  choice :: nat
  faults :: "string list"

definition guarded :: "string \<Rightarrow> (world \<Rightarrow> (exc + 'a) \<times> world) \<Rightarrow> world \<Rightarrow> (exc + 'a) \<times> world" where
  "guarded name f w =
     (if name \<in> set (faults w)
      then (Inl (Exception name), w\<lparr>faults := remove1 name (faults w)\<rparr>)
      else f w)"

definition contract :: "(registry \<Rightarrow> registry option) \<Rightarrow> world \<Rightarrow> (exc + unit) \<times> world" where
  "contract f w =
     (case f (registry w) of
        None \<Rightarrow> (Inl (Exception ''contract violation''), w)
      | Some r \<Rightarrow> (Inr (), w\<lparr>registry := r\<rparr>))"

definition sim_get_state :: "world \<Rightarrow> (exc + state option) \<times> world" where
  "sim_get_state w =
     (case getState (choice w) (registry w) of
        (None, r) \<Rightarrow> (Inr None, w\<lparr>registry := r\<rparr>)
      | (Some i, r) \<Rightarrow>
          (case map_of (states r) i of
             None \<Rightarrow> (Inl (Exception ''no record''), w\<lparr>registry := r\<rparr>)
           | Some s \<Rightarrow> (Inr (Some (s\<lparr>id_of := i\<rparr>)), w\<lparr>registry := r\<rparr>)))"

definition sim_execute :: "state \<Rightarrow> world \<Rightarrow> (exc + unit) \<times> state \<times> world" where
  "sim_execute s w =
     (case steps w of
        [] \<Rightarrow> (Inr (), s\<lparr>image := image s + 1\<rparr>, w)
      | Advance # rest \<Rightarrow> (Inr (), s\<lparr>image := image s + 1\<rparr>, w\<lparr>steps := rest\<rparr>)
      | Signal e # rest \<Rightarrow> (Inl e, s\<lparr>image := image s + 1\<rparr>, w\<lparr>steps := rest\<rparr>)
      | KillRequest # rest \<Rightarrow>
          (Inr (), s\<lparr>image := image s + 1\<rparr>,
           w\<lparr>steps := rest, registry := (registry w)\<lparr>kill_flag := True\<rparr>\<rparr>))"

definition sim_fork :: "state option \<Rightarrow> string \<Rightarrow> string \<Rightarrow> string \<Rightarrow> world \<Rightarrow> (exc + int option) \<times> world" where
  "sim_fork cur expr pol sets w =
     (case cur of
        None \<Rightarrow> (Inl AttributeError, w)
      | Some s \<Rightarrow>
          (case forkState (case map_of (solver w) expr of None \<Rightarrow> 0 | Some n \<Rightarrow> n) (keep w) s (registry w) of
             (ret, r) \<Rightarrow> (Inr ret, w\<lparr>registry := r\<rparr>)))"

definition sim :: "world manticore" where
  "sim =
     \<lparr>killed_value = (\<lambda>w. kill_flag (registry w)),
      busy_states = (\<lambda>w. busy (registry w)),
      ready_states = (\<lambda>w. ready (registry w)),
      get_state = guarded ''get_state'' sim_get_state,
      execute = sim_execute,
      save = (\<lambda>s i. guarded ''save'' (\<lambda>w. (Inr (), w\<lparr>registry := saveState s i (registry w)\<rparr>))),
      revive_state = (\<lambda>i. guarded ''revive_state'' (contract (reviveState i))),
      fork = (\<lambda>cur expr pol sets. guarded ''fork'' (sim_fork cur expr pol sets)),
      terminate_state = (\<lambda>i. guarded ''terminate_state'' (contract (terminateState i))),
      kill_state = (\<lambda>i. guarded ''kill_state'' (contract (killState i))),
      publish = (\<lambda>name args. guarded name (\<lambda>w. (Inr (), w)))\<rparr>"


section \<open>The state snapshot\<close>

subsection \<open>Double-precision arithmetic\<close>

text \<open>
  \<^verbatim>\<open>timedelta.total_seconds()\<close> is the true division of the whole number of
  microseconds by \<^verbatim>\<open>10**6\<close>, a correctly rounded \<^verbatim>\<open>float\<close>; the product with
  \<^verbatim>\<open>1000\<close> is a \<^verbatim>\<open>float\<close> multiplication, and \<^verbatim>\<open>int()\<close> truncates. A
  \<^verbatim>\<open>float\<close> is an IEEE binary64 number: a rational \<open>n * 2 ^ e\<close> with
  \<open>\<bar>n\<bar> \<le> 2 ^ 53\<close>, and every operation rounds the exact result to the nearest
  such number, a tie going to the even \<open>n\<close>. The quotients and products of
  \<^verbatim>\<open>timedelta\<close> values are far from the ends of the exponent range, which are left
  out.
\<close>

definition exponent_of :: "rat \<Rightarrow> int" where
  "exponent_of x =
     (case quotient_of \<bar>x\<bar> of (p, q) \<Rightarrow>
        (let d = bitlen p - bitlen q in if 2 powi d \<le> \<bar>x\<bar> then d else d - 1))"

definition round_half_even :: "rat \<Rightarrow> int" where
  "round_half_even x =
     (let n = \<lfloor>x\<rfloor>; f = x - of_int n
      in if f < 1 / 2 then n else if 1 / 2 < f then n + 1 else if even n then n else n + 1)"

definition to_double :: "rat \<Rightarrow> rat" where
  "to_double x =
     (if x = 0 then 0
      else (let e = exponent_of x - 52 in of_int (round_half_even (x / 2 powi e)) * 2 powi e))"

text \<open>\<^verbatim>\<open>int(x)\<close> on a float: truncation towards zero.\<close>

definition py_int :: "rat \<Rightarrow> int" where
  "py_int x = (if 0 \<le> x then \<lfloor>x\<rfloor> else \<lceil>x\<rceil>)"

text \<open>
  A \<^verbatim>\<open>datetime\<close> is the number of microseconds since some fixed instant, and a
  \<^verbatim>\<open>timedelta\<close> a number of microseconds.
\<close>

definition total_seconds :: "int \<Rightarrow> rat" where
  "total_seconds delta = to_double (of_int delta / 1000000)"

subsection \<open>\<^verbatim>\<open>render_state_descriptors\<close> (lines 317-338)\<close>

text \<open>
  The enumerations and the descriptor class are imported by worker.py and declared
  elsewhere. Of \<^verbatim>\<open>StateStatus\<close> worker.py names the member \<^verbatim>\<open>destroyed\<close> only; of
  \<^verbatim>\<open>StateLists\<close> the four members that are the keys of the dictionary in line 325.
  The descriptor has the fields worker.py reads; the termination message and the
  execution counter may be \<^verbatim>\<open>None\<close>, and \<^verbatim>\<open>field_updated_at\<close> is a dictionary from
  field names to times.
\<close>

datatype StateStatus = destroyed | other_status string

datatype StateLists = StateLists_ready | StateLists_busy | StateLists_terminated | StateLists_killed

record StateDescriptor =
  state_id :: int
  status :: StateStatus
  state_list :: StateLists
  termination_msg :: "string option"
  own_execs :: "int option"
  field_updated_at :: "(string \<times> int) list"

text \<open>The wire record \<^verbatim>\<open>State\<close> of the generated module, as the arguments of its constructor.\<close>

datatype State_type = State_READY | State_BUSY | State_TERMINATED | State_KILLED

record State =
  State_id :: int
  State_type :: State_type
  State_reason :: "string option"
  State_num_executing :: "int option"
  State_wait_time :: int

text \<open>The dictionary literal of lines 325-330.\<close>

definition type_of_list :: "(StateLists \<times> State_type) list" where
  "type_of_list =
     [(StateLists_ready, State_READY),
      (StateLists_busy, State_BUSY),
      (StateLists_terminated, State_TERMINATED),
      (StateLists_killed, State_KILLED)]"

text \<open>
  \<^verbatim>\<open>int((now - st.field_updated_at.get("state_list", now)).total_seconds() * 1000)\<close>
\<close>

definition wait_time :: "int \<Rightarrow> StateDescriptor \<Rightarrow> int" where
  "wait_time now st =
     py_int (to_double (total_seconds
       (now - (case map_of (field_updated_at st) ''state_list'' of None \<Rightarrow> now | Some t \<Rightarrow> t)) * 1000))"

text \<open>
  The loop over \<^verbatim>\<open>desc.values()\<close>. \<^verbatim>\<open>datetime.now()\<close> is called once for every
  descriptor that is not destroyed: \<open>clock k\<close> is what call number \<open>k\<close> returns. A
  key missing from the dictionary literal raises.
\<close>

fun render_loop :: "(nat \<Rightarrow> int) \<Rightarrow> nat \<Rightarrow> StateDescriptor list \<Rightarrow> State list \<Rightarrow> exc + State list" where
  "render_loop clock k [] out = Inr out"
| "render_loop clock k (st # rest) out =
     (if status st \<noteq> destroyed then
        (let now = clock k in
         case map_of type_of_list (state_list st) of
           None \<Rightarrow> Inl (Exception ''KeyError'')
         | Some ty \<Rightarrow>
             render_loop clock (k + 1) rest
               (out @ [\<lparr>State_id = state_id st,
                        State_type = ty,
                        State_reason = termination_msg st,
                        State_num_executing = own_execs st,
                        State_wait_time = wait_time now st\<rparr>]))
      else render_loop clock k rest out)"

definition render_state_descriptors :: "(nat \<Rightarrow> int) \<Rightarrow> (int \<times> StateDescriptor) list \<Rightarrow> exc + State list" where
  "render_state_descriptors clock desc = render_loop clock 0 (map snd desc) []"

text \<open>
  \<^verbatim>\<open>StateMonitorWorker.dump_states\<close> (lines 345-348): \<^verbatim>\<open>introspect()\<close> is the
  coordinator's; its result is the argument. The serialisation is left out.
\<close>

definition dump_states :: "(nat \<Rightarrow> int) \<Rightarrow> (int \<times> StateDescriptor) list \<Rightarrow> exc + State list" where
  "dump_states clock introspect = render_state_descriptors clock introspect"


section \<open>Concrete inputs\<close>

text \<open>
  A registry with the single ready state 1, and worlds over it that differ in the
  script of the advance and in the calls that fail.
\<close>

definition state1 :: state where
  "state1 = \<lparr>id_of = 1, terminated_by = None, image = 0\<rparr>"

definition registry1 :: registry where
  "registry1 =
     \<lparr>ready = [1], busy = [], terminated = [], killed = [],
      states = [(1, state1)], kill_flag = False, next_id = 2\<rparr>"

definition world1 :: "step list \<Rightarrow> string list \<Rightarrow> world" where
  "world1 script fs =
     \<lparr>registry = registry1, steps = script, solver = [(''x'', 1)],
      keep = Some 0, choice = 0, faults = fs\<rparr>"

text \<open>A descriptor whose list membership changed at time 0, and a full queue of capacity 2.\<close>

definition descriptor7 :: StateDescriptor where
  "descriptor7 =
     \<lparr>state_id = 7, status = other_status ''running'', state_list = StateLists_busy,
      termination_msg = None, own_execs = Some 12, field_updated_at = [(''state_list'', 0)]\<rparr>"

definition queue2 :: log_queue where
  "queue2 = \<lparr>maxsize = 2, items = [''a'', ''b'']\<rparr>"


section \<open>Properties of the introspection servers\<close>

text \<open>
  Claim C9. The log server and the state-snapshot server listen on the same host,
  \<open>localhost\<close>, on the fixed ports 3214 and 3215: the snapshot port is the log port
  plus one. Both servers are built by the class that sets address reuse.
\<close>

theorem introspection_ports_adjacent_loopback_reusable:
  "server_address log_server = (''localhost'', 3214)
   \<and> server_address monitor_server = (''localhost'', 3215)
   \<and> fst (server_address monitor_server) = fst (server_address log_server)
   \<and> snd (server_address monitor_server) = snd (server_address log_server) + 1
   \<and> allow_reuse_address log_server
   \<and> allow_reuse_address monitor_server"
  by (simp add: log_server_def monitor_server_def ReusableTCPServer_def HOST_def PORT_def)


section \<open>Properties of the log buffer\<close>

lemma log_callback_eq:
  assumes "queue_ok q"
  shows "log_callback msg q = Some (q\<lparr>items := (if full q then tl (items q) else items q) @ [msg]\<rparr>)"
  using assms unfolding log_callback_def put_def get_def full_def queue_ok_def qsize_def
  by (cases "items q") auto

lemma dump_loop_eq:
  "dump_loop i q acc = Some (acc @ take (50 - i) (items q), q\<lparr>items := drop (50 - i) (items q)\<rparr>)"
proof (induction i q acc rule: dump_loop.induct)
  case (1 i q messages)
  show ?case
  proof (cases "i < 50 \<and> \<not> empty q")
    case True
    then obtain x xs where xs: "items q = x # xs"
      unfolding empty_def qsize_def by (cases "items q") auto
    have g: "get q = Some (x, q\<lparr>items := xs\<rparr>)" by (simp add: get_def xs)
    from True obtain k where k: "50 - i = Suc k" "50 - (i + 1) = k" by (cases "50 - i") auto
    show ?thesis
      using "1.IH"[OF True g refl] True g xs k
      by (subst dump_loop.simps) simp
  next
    case False
    then show ?thesis
      by (subst dump_loop.simps) (auto simp: empty_def qsize_def)
  qed
qed

lemma dump_logs_eq:
  "dump_logs self =
     Some (take 50 (items (log_queue self)),
           \<lparr>activated = True, log_queue = (log_queue self)\<lparr>items := drop 50 (items (log_queue self))\<rparr>\<rparr>)"
  by (simp add: dump_logs_def dump_loop_eq)

text \<open>
  Claim C6. On a queue within its capacity a push returns (it does not block); when
  the queue is full the push first removes the oldest record, and the new record goes
  to the end; the queue stays within its capacity. A dump returns (it does not block)
  the first 50 records of the queue, or all of them when there are fewer, oldest
  first, and leaves the others in the queue.
\<close>

theorem log_buffer_evicts_oldest_and_dump_takes_50:
  assumes "queue_ok q"
  shows "(\<exists>q'. log_callback msg q = Some q'
           \<and> items q' = (if full q then tl (items q) else items q) @ [msg]
           \<and> maxsize q' = maxsize q
           \<and> queue_ok q')
       \<and> (\<exists>messages self'. dump_logs \<lparr>activated = a, log_queue = q\<rparr> = Some (messages, self')
           \<and> messages = take 50 (items q)
           \<and> length messages \<le> 50
           \<and> items (log_queue self') = drop 50 (items q)
           \<and> maxsize (log_queue self') = maxsize q)"
proof (intro conjI)
  have "queue_ok (q\<lparr>items := (if full q then tl (items q) else items q) @ [msg]\<rparr>)"
    using assms unfolding queue_ok_def full_def qsize_def by (cases "items q") auto
  then show "\<exists>q'. log_callback msg q = Some q'
           \<and> items q' = (if full q then tl (items q) else items q) @ [msg]
           \<and> maxsize q' = maxsize q
           \<and> queue_ok q'"
    using log_callback_eq[OF assms, of msg] by simp
next
  show "\<exists>messages self'. dump_logs \<lparr>activated = a, log_queue = q\<rparr> = Some (messages, self')
           \<and> messages = take 50 (items q)
           \<and> length messages \<le> 50
           \<and> items (log_queue self') = drop 50 (items q)
           \<and> maxsize (log_queue self') = maxsize q"
    by (simp add: dump_logs_eq)
qed

theorem log_buffer_witness:
  "queue_ok queue2 \<and> full queue2
   \<and> log_callback ''c'' queue2 = Some \<lparr>maxsize = 2, items = [''b'', ''c'']\<rparr>
   \<and> dump_logs \<lparr>activated = False, log_queue = queue2\<rparr>
       = Some ([''a'', ''b''], \<lparr>activated = True, log_queue = \<lparr>maxsize = 2, items = []\<rparr>\<rparr>)"
proof -
  have ok: "queue_ok queue2" by (simp add: queue_ok_def queue2_def qsize_def)
  have fl: "full queue2" by (simp add: full_def queue2_def qsize_def)
  from log_buffer_evicts_oldest_and_dump_takes_50[OF ok, of "''c''" False]
  obtain q' messages self' where
    a: "log_callback ''c'' queue2 = Some q'"
    and b: "items q' = (if full queue2 then tl (items queue2) else items queue2) @ [''c'']"
    and c: "maxsize q' = maxsize queue2"
    and d: "dump_logs \<lparr>activated = False, log_queue = queue2\<rparr> = Some (messages, self')"
    and e: "messages = take 50 (items queue2)"
    and f: "items (log_queue self') = drop 50 (items queue2)"
    and g: "maxsize (log_queue self') = maxsize queue2"
    by blast
  have q': "q' = \<lparr>maxsize = 2, items = [''b'', ''c'']\<rparr>"
    using b c fl by (simp add: queue2_def)
  have self': "self' = \<lparr>activated = True, log_queue = \<lparr>maxsize = 2, items = []\<rparr>\<rparr>"
    using d by (auto simp: dump_logs_eq queue2_def)
  have m: "messages = [''a'', ''b'']"
    using e by (simp add: queue2_def)
  from ok fl a q' d m self' show ?thesis by simp
qed


section \<open>Properties of the run-loop\<close>

subsection \<open>Auxiliary facts\<close>

lemma after_simp [simp]: "after cs (f, cur, w, tr) = (f, cur, w, cs @ tr)"
  by (simp add: after_def)

lemma trace_of_simp [simp]: "trace_of (f, cur, w, tr) = tr"
  by (simp add: trace_of_def)

lemma trace_of_after [simp]: "trace_of (after cs r) = cs @ trace_of r"
  by (cases r) simp

lemma iteration_raised:
  "inner_try n m cur w = Some (Raised e, cur', w', tr) \<Longrightarrow>
   iteration n m cur w = Some (after tr (except_fatal m e cur' w'))"
  by (simp add: iteration_def)

lemma inner_try_raised:
  "try_body n m cur w = Some (Raised e, cur', w', tr) \<Longrightarrow>
   inner_try n m cur w = Some (after tr (except_signal m e cur' w'))"
  by (simp add: inner_try_def)

lemma try_body_starts:
  "try_body n m cur w = Some r \<Longrightarrow> \<exists>rest. trace_of r = Call_get_state # rest"
  unfolding try_body_def
  by (auto split: prod.splits sum.splits option.splits if_splits)

lemma inner_try_starts:
  assumes "inner_try n m cur w = Some r"
  shows "\<exists>rest. trace_of r = Call_get_state # rest"
proof (cases "try_body n m cur w")
  case None
  with assms show ?thesis by (simp add: inner_try_def)
next
  case (Some r0)
  obtain f0 c0 w0 tr0 where r0: "r0 = (f0, c0, w0, tr0)" by (cases r0)
  from try_body_starts[OF Some] r0 obtain rest where tr0: "tr0 = Call_get_state # rest" by auto
  show ?thesis
    using assms Some r0 tr0 by (cases f0) (auto simp: inner_try_def)
qed

lemma iteration_starts:
  assumes "iteration n m cur w = Some r"
  shows "\<exists>rest. trace_of r = Call_get_state # rest"
proof (cases "inner_try n m cur w")
  case None
  with assms show ?thesis by (simp add: iteration_def)
next
  case (Some r0)
  obtain f0 c0 w0 tr0 where r0: "r0 = (f0, c0, w0, tr0)" by (cases r0)
  from inner_try_starts[OF Some] r0 obtain rest where tr0: "tr0 = Call_get_state # rest" by auto
  show ?thesis
    using assms Some r0 tr0 by (cases f0) (auto simp: iteration_def)
qed

lemma mainloop_starts:
  assumes "\<not> killed_value m w" "mainloop n m cur w = Some r"
  shows "\<exists>rest. trace_of r = Call_get_state # rest"
proof (cases n)
  case 0
  with assms show ?thesis by simp
next
  case (Suc k)
  show ?thesis
  proof (cases "iteration k m cur w")
    case None
    with assms Suc show ?thesis by simp
  next
    case (Some r0)
    obtain f0 c0 w0 tr0 where r0: "r0 = (f0, c0, w0, tr0)" by (cases r0)
    from iteration_starts[OF Some] r0
    obtain rest where "tr0 = Call_get_state # rest" by auto
    with assms Suc Some r0 show ?thesis
      by (cases f0) auto
  qed
qed

lemma stopped_raised_holds:
  "stopped m s w = (Raised e, c, w', tr) \<Longrightarrow> c = Some s"
  unfolding stopped_def by (auto split: prod.splits sum.splits option.splits)

lemma drive_raised_holds:
  "drive n m s w = Some (Raised e, c, w', tr) \<Longrightarrow> \<exists>s'. c = Some s'"
proof (induction n arbitrary: s w tr)
  case 0
  then show ?case by simp
next
  case (Suc n)
  show ?case
  proof (cases "killed_value m w")
    case True
    with Suc.prems show ?thesis by (auto dest: stopped_raised_holds)
  next
    case False
    obtain r s1 w1 where ex: "execute m s w = (r, s1, w1)" by (cases "execute m s w")
    show ?thesis
    proof (cases r)
      case (Inl e0)
      with Suc.prems False ex show ?thesis by auto
    next
      case (Inr u)
      with Suc.prems False ex obtain r0 where
        d: "drive n m s1 w1 = Some r0" and a: "after [Call_execute s] r0 = (Raised e, c, w', tr)"
        by auto
      obtain f0 c0 w0 tr0 where r0: "r0 = (f0, c0, w0, tr0)" by (cases r0)
      from a r0 have "f0 = Raised e" "c0 = c" "w0 = w'" by simp_all
      with d r0 Suc.IH[of s1 w1 tr0] show ?thesis by simp
    qed
  qed
qed

lemma try_body_raised_none:
  assumes "try_body n m cur w = Some (Raised e, None, w', tr)"
  shows "cur = None \<and> tr = [Call_get_state] \<and> get_state m w = (Inl e, w')"
proof -
  obtain r w1 where g: "get_state m w = (r, w1)" by (cases "get_state m w")
  show ?thesis
  proof (cases r)
    case (Inl e0)
    with assms g show ?thesis by (simp add: try_body_def)
  next
    case (Inr so)
    show ?thesis
    proof (cases so)
      case None
      with assms g Inr show ?thesis by (simp add: try_body_def)
    next
      case (Some s)
      show ?thesis
      proof (cases "acquired_ok m s w1")
        case False
        with assms g Inr Some show ?thesis by (simp add: try_body_def)
      next
        case True
        with assms g Inr Some obtain r0 where
          d: "drive n m s w1 = Some r0"
          and a: "after [Call_get_state] (assert_released r0) = (Raised e, None, w', tr)"
          by (auto simp: try_body_def)
        obtain f0 c0 w0 tr0 where r0: "r0 = (f0, c0, w0, tr0)" by (cases r0)
        have False
        proof (cases f0)
          case Fallthrough
          with a r0 show False by (cases c0) (simp_all add: assert_released_def)
        next
          case BreakLoop
          with a r0 show False by (simp add: assert_released_def)
        next
          case (Raised e0)
          with d r0 drive_raised_holds[of n m s w1 e0 c0 w0 tr0] obtain s' where "c0 = Some s'" by auto
          with a r0 Raised show False by (simp add: assert_released_def)
        qed
        then show ?thesis ..
      qed
    qed
  qed
qed

lemma except_signal_raised_none:
  assumes "except_signal m e0 cur w = (Raised e, None, w', tr)"
  shows "cur = None \<and> (\<forall>c \<in> set tr. \<not> kill_step c)"
proof (cases e0)
  case (Concretize msg expr pol sets)
  with assms show ?thesis by (auto split: prod.splits sum.splits)
next
  case (TerminateState reason)
  with assms show ?thesis
    by (cases cur) (auto split: prod.splits sum.splits option.splits simp: Let_def)
qed (use assms in auto)

lemma try_body_raised_cases:
  assumes "try_body n m cur w = Some r" "inner_try n m cur w = Some (Raised e, c, w', tr)"
  shows "\<exists>e0 c0 w0 tr0. r = (Raised e0, c0, w0, tr0)"
proof -
  obtain f0 c0 w0 tr0 where r: "r = (f0, c0, w0, tr0)" by (cases r)
  with assms show ?thesis by (cases f0) (auto simp: inner_try_def)
qed

lemma inner_try_raised_none:
  assumes "inner_try n m cur w = Some (Raised e, None, w', tr)"
  shows "\<forall>c \<in> set tr. \<not> kill_step c"
proof (cases "try_body n m cur w")
  case None
  with assms show ?thesis by (simp add: inner_try_def)
next
  case (Some r)
  from try_body_raised_cases[OF Some assms] obtain e0 c0 w0 tr0
    where r: "r = (Raised e0, c0, w0, tr0)" by blast
  obtain f1 c1 w1 tr1 where h: "except_signal m e0 c0 w0 = (f1, c1, w1, tr1)"
    by (cases "except_signal m e0 c0 w0")
  from assms Some r h have eq: "f1 = Raised e" "c1 = None" "tr = tr0 @ tr1"
    by (simp_all add: inner_try_def)
  from except_signal_raised_none[of m e0 c0 w0 e w1 tr1] h eq
  have c0: "c0 = None" and tr1: "\<forall>c \<in> set tr1. \<not> kill_step c" by auto
  from try_body_raised_none[of n m cur w e0 w0 tr0] Some r c0 have "tr0 = [Call_get_state]" by simp
  with eq tr1 show ?thesis by auto
qed


lemma except_fatal_held:
  assumes "publish m ''will_kill_state'' [StateArg (Some s), ExcArg e] w1 = (Inr (), w2)"
      and "save m s (id_of s) w2 = (Inr (), w3)"
      and "kill_state m (id_of s) w3 = (Inr (), w4)"
      and "publish m ''did_kill_state'' [StateArg (Some s), ExcArg e] w4 = (Inr (), w5)"
  shows "except_fatal m e (Some s) w1 =
           (BreakLoop, None, w5,
            [Call_publish ''will_kill_state'' [StateArg (Some s), ExcArg e],
             Call_save s (id_of s),
             Call_kill_state (id_of s),
             Call_publish ''did_kill_state'' [StateArg (Some s), ExcArg e]])"
  using assms by (simp add: except_fatal_def)


subsection \<open>Unrecoverable failures\<close>

text \<open>
  Claim C2. Whenever an exception \<open>e\<close> leaves the inner \<^verbatim>\<open>try\<close> while the unit holds
  a current state \<open>s\<close>, and the four calls of the guard return, the unit makes, after
  the calls made so far and in this order, the calls
  \<^verbatim>\<open>publish("will_kill_state", s, e)\<close>, \<^verbatim>\<open>save(s, s.id)\<close>, \<^verbatim>\<open>kill_state(s.id)\<close>,
  \<^verbatim>\<open>publish("did_kill_state", s, e)\<close>; the loop is then left, with no further
  acquisition, and \<^verbatim>\<open>run\<close> ends by publishing \<^verbatim>\<open>did_terminate_worker\<close>.
\<close>

theorem unrecoverable_failure_kills_state_and_retires_unit:
  assumes "\<not> killed_value m w"
      and "inner_try n m cur w = Some (Raised e, Some s, w1, tr)"
      and "publish m ''will_kill_state'' [StateArg (Some s), ExcArg e] w1 = (Inr (), w2)"
      and "save m s (id_of s) w2 = (Inr (), w3)"
      and "kill_state m (id_of s) w3 = (Inr (), w4)"
      and "publish m ''did_kill_state'' [StateArg (Some s), ExcArg e] w4 = (Inr (), w5)"
      and "publish m ''did_terminate_worker'' [WorkerArg self_id] w5 = (res, w6)"
  shows "mainloop (Suc n) m cur w =
           Some (Fallthrough, None, w5,
                 tr @ [Call_publish ''will_kill_state'' [StateArg (Some s), ExcArg e],
                       Call_save s (id_of s),
                       Call_kill_state (id_of s),
                       Call_publish ''did_kill_state'' [StateArg (Some s), ExcArg e]])
       \<and> getting_out m self_id
            (Fallthrough, None, w5,
             tr @ [Call_publish ''will_kill_state'' [StateArg (Some s), ExcArg e],
                   Call_save s (id_of s),
                   Call_kill_state (id_of s),
                   Call_publish ''did_kill_state'' [StateArg (Some s), ExcArg e]]) =
           (res, w6,
            tr @ [Call_publish ''will_kill_state'' [StateArg (Some s), ExcArg e],
                  Call_save s (id_of s),
                  Call_kill_state (id_of s),
                  Call_publish ''did_kill_state'' [StateArg (Some s), ExcArg e],
                  Call_publish ''did_terminate_worker'' [WorkerArg self_id]])"
proof -
  have "iteration n m cur w = Some (after tr (except_fatal m e (Some s) w1))"
    using assms(2) by (rule iteration_raised)
  then have "iteration n m cur w =
           Some (BreakLoop, None, w5,
                 tr @ [Call_publish ''will_kill_state'' [StateArg (Some s), ExcArg e],
                       Call_save s (id_of s),
                       Call_kill_state (id_of s),
                       Call_publish ''did_kill_state'' [StateArg (Some s), ExcArg e]])"
    using except_fatal_held[OF assms(3-6)] by simp
  then show ?thesis
    using assms(1,7) by (simp add: getting_out_def)
qed

theorem unrecoverable_failure_witness:
  "mainloop 2 sim None (world1 [Signal (Exception ''boom'')] []) =
     Some (Fallthrough, None,
           (world1 [] [])\<lparr>registry := registry1\<lparr>ready := [], busy := [], killed := [1],
                                                 states := [(1, state1\<lparr>image := 1\<rparr>)]\<rparr>\<rparr>,
           [Call_get_state, Call_execute state1,
            Call_publish ''will_kill_state'' [StateArg (Some (state1\<lparr>image := 1\<rparr>)), ExcArg (Exception ''boom'')],
            Call_save (state1\<lparr>image := 1\<rparr>) 1,
            Call_kill_state 1,
            Call_publish ''did_kill_state'' [StateArg (Some (state1\<lparr>image := 1\<rparr>)), ExcArg (Exception ''boom'')]])"
proof -
  let ?w = "world1 [Signal (Exception ''boom'')] []"
  let ?s = "state1\<lparr>image := 1\<rparr>"
  let ?w1 = "(world1 [] [])\<lparr>registry := registry1\<lparr>ready := [], busy := [1]\<rparr>\<rparr>"
  let ?w3 = "(world1 [] [])\<lparr>registry := registry1\<lparr>ready := [], busy := [1], states := [(1, ?s)]\<rparr>\<rparr>"
  let ?w4 = "(world1 [] [])\<lparr>registry := registry1\<lparr>ready := [], busy := [], killed := [1], states := [(1, ?s)]\<rparr>\<rparr>"
  have h1: "\<not> killed_value sim ?w" by code_simp
  have h2: "inner_try 1 sim None ?w = Some (Raised (Exception ''boom''), Some ?s, ?w1, [Call_get_state, Call_execute state1])"
    by code_simp
  have h3: "publish sim ''will_kill_state'' [StateArg (Some ?s), ExcArg (Exception ''boom'')] ?w1 = (Inr (), ?w1)"
    by code_simp
  have h4: "save sim ?s (id_of ?s) ?w1 = (Inr (), ?w3)" by code_simp
  have h5: "kill_state sim (id_of ?s) ?w3 = (Inr (), ?w4)" by code_simp
  have h6: "publish sim ''did_kill_state'' [StateArg (Some ?s), ExcArg (Exception ''boom'')] ?w4 = (Inr (), ?w4)"
    by code_simp
  have h7: "publish sim ''did_terminate_worker'' [WorkerArg 0] ?w4 = (Inr (), ?w4)" by code_simp
  from unrecoverable_failure_kills_state_and_retires_unit[OF h1 h2 h3 h4 h5 h6 h7]
  show ?thesis by (simp add: numeral_2_eq_2 registry1_def state1_def)
qed

text \<open>
  Claim C10. Whenever an exception leaves the inner \<^verbatim>\<open>try\<close> while the unit holds no
  current state, the guard makes no call at all and leaves the world as it is, no
  call of the whole pass is a save, a kill or a kill event, the loop is left, and
  \<^verbatim>\<open>run\<close> ends by publishing \<^verbatim>\<open>did_terminate_worker\<close>.
\<close>

theorem failure_without_state_just_retires_unit:
  assumes "\<not> killed_value m w"
      and "inner_try n m cur w = Some (Raised e, None, w1, tr)"
      and "publish m ''did_terminate_worker'' [WorkerArg self_id] w1 = (res, w2)"
  shows "except_fatal m e None w1 = (BreakLoop, None, w1, [])
       \<and> iteration n m cur w = Some (BreakLoop, None, w1, tr)
       \<and> (\<forall>c \<in> set tr. \<not> kill_step c)
       \<and> mainloop (Suc n) m cur w = Some (Fallthrough, None, w1, tr)
       \<and> getting_out m self_id (Fallthrough, None, w1, tr) =
           (res, w2, tr @ [Call_publish ''did_terminate_worker'' [WorkerArg self_id]])"
proof -
  have g: "except_fatal m e None w1 = (BreakLoop, None, w1, [])"
    by (simp add: except_fatal_def)
  have i: "iteration n m cur w = Some (BreakLoop, None, w1, tr)"
    using iteration_raised[OF assms(2)] g by simp
  from g i inner_try_raised_none[OF assms(2)] assms(1,3) show ?thesis
    by (simp add: getting_out_def)
qed

theorem failure_without_state_witness:
  "mainloop 2 sim None (world1 [] [''get_state'']) =
     Some (Fallthrough, None, world1 [] [], [Call_get_state])
   \<and> getting_out sim 0 (Fallthrough, None, world1 [] [], [Call_get_state]) =
       (Inr (), world1 [] [], [Call_get_state, Call_publish ''did_terminate_worker'' [WorkerArg 0]])"
proof -
  have h1: "\<not> killed_value sim (world1 [] [''get_state''])" by code_simp
  have h2: "inner_try 1 sim None (world1 [] [''get_state'']) =
              Some (Raised (Exception ''get_state''), None, world1 [] [], [Call_get_state])"
    by code_simp
  have h3: "publish sim ''did_terminate_worker'' [WorkerArg 0] (world1 [] []) = (Inr (), world1 [] [])"
    by code_simp
  from failure_without_state_just_retires_unit[OF h1 h2 h3]
  show ?thesis by (simp add: numeral_2_eq_2)
qed

subsection \<open>More auxiliary facts\<close>

lemma mainloop_again:
  "\<not> killed_value m w \<Longrightarrow> iteration n m cur w = Some (Fallthrough, cur', w', tr) \<Longrightarrow>
   mainloop (Suc n) m cur w = map_option (after tr) (mainloop n m cur' w')"
  by simp

lemma iteration_handled:
  assumes "try_body n m cur w = Some (Raised e, cur1, w1, tr)"
      and "except_signal m e cur1 w1 = (Fallthrough, cur2, w2, tr2)"
  shows "iteration n m cur w = Some (Fallthrough, cur2, w2, tr @ tr2)"
  using inner_try_raised[OF assms(1)] assms(2) by (simp add: iteration_def)

lemma except_signal_raised_some:
  assumes "except_signal m sig (Some s0) w1 = (Raised e, cur2, w2, tr2)"
  shows "\<exists>s. cur2 = Some s \<and> id_of s = id_of s0"
proof (cases sig)
  case (Concretize msg expr pol sets)
  with assms show ?thesis by (auto split: prod.splits sum.splits)
next
  case (TerminateState reason)
  with assms show ?thesis
    by (auto split: prod.splits sum.splits option.splits simp: Let_def)
qed (use assms in auto)

lemma except_signal_raised_nothing:
  assumes "except_signal m sig None w1 = (Raised e, cur2, w2, tr2)"
  shows "cur2 = None"
proof (cases sig)
  case (Concretize msg expr pol sets)
  with assms show ?thesis by (auto split: prod.splits sum.splits)
next
  case (TerminateState reason)
  with assms show ?thesis
    by (auto split: prod.splits sum.splits option.splits simp: Let_def)
qed (use assms in auto)

lemma mainloop_break:
  "\<not> killed_value m w \<Longrightarrow> iteration n m cur w = Some (BreakLoop, cur', w', tr) \<Longrightarrow>
   mainloop (Suc n) m cur w = Some (Fallthrough, cur', w', tr)"
  by simp

lemma stopped_returns:
  assumes "save m s (id_of s) w = (Inr (), w1)"
      and "revive_state m (id_of s) w1 = (Inr (), w2)"
  shows "stopped m s w = (Fallthrough, None, w2, [Call_save s (id_of s), Call_revive_state (id_of s)])"
  using assms by (simp add: stopped_def)

lemma revive_after_save:
  assumes "registry_ok r" "i \<in> set (busy r)"
  shows "\<exists>r'. reviveState i (saveState s i r) = Some r'
            \<and> i \<in> set (ready r') \<and> i \<notin> set (busy r')
            \<and> map_of (states r') i = Some s
            \<and> fst (getState (length (ready r)) r') = Some i"
proof -
  let ?r' = "(saveState s i r)\<lparr>busy := remove1 i (busy r), ready := ready r @ [i]\<rparr>"
  have rv: "reviveState i (saveState s i r) = Some ?r'"
    using assms(2) by (simp add: reviveState_def saveState_def)
  have d: "distinct (busy r)" using assms(1) by (simp add: registry_ok_def)
  then have nb: "i \<notin> set (remove1 i (busy r))" by simp
  have g: "fst (getState (length (ready r)) ?r') = Some i"
    by (simp add: getState_def saveState_def Let_def nth_append)
  show ?thesis
    using rv nb g by (simp add: saveState_def)
qed

lemma getState_moves:
  assumes "registry_ok r" "getState k r = (Some i, r')"
  shows "i \<in> set (busy r') \<and> i \<notin> set (ready r') \<and> i \<in> set (ready r) \<and> registry_ok r'"
proof -
  from assms(2) have ne: "ready r \<noteq> []" by (auto simp: getState_def split: if_splits)
  then have lt: "k mod length (ready r) < length (ready r)" by simp
  from assms(2) ne have i: "i = ready r ! (k mod length (ready r))"
    and r': "r' = r\<lparr>ready := remove1 i (ready r), busy := busy r @ [i]\<rparr>"
    by (auto simp: getState_def Let_def)
  from i lt have mem: "i \<in> set (ready r)" by simp
  have d: "distinct (ready r @ busy r @ terminated r @ killed r)"
    and k: "set (map fst (states r)) = set (ready r @ busy r @ terminated r @ killed r)"
    using assms(1) by (simp_all add: registry_ok_def)
  from d have dr: "distinct (ready r)" by simp
  have s1: "set (remove1 i (ready r)) = set (ready r) - {i}"
    using dr by (rule set_remove1_eq)
  have ok: "registry_ok r'"
    unfolding registry_ok_def r' using d k mem s1 by auto
  show ?thesis using mem s1 ok by (simp add: r')
qed

lemma try_body_acquired:
  assumes "get_state m w = (Inr (Some s), w1)" "acquired_ok m s w1"
  shows "try_body n m cur w =
           map_option (\<lambda>x. after [Call_get_state] (assert_released x)) (drive n m s w1)"
  using assms by (simp add: try_body_def)

lemma pass_ending_in_checkpoint:
  assumes "\<not> killed_value m w0"
      and "get_state m w0 = (Inr (Some s0), wa)"
      and "acquired_ok m s0 wa"
      and "drive (Suc j) m s0 wa = Some (Fallthrough, None, w2, tr)"
      and "killed_value m w2"
  shows "mainloop (Suc (Suc j)) m cur w0 = Some (Fallthrough, None, w2, Call_get_state # tr)"
proof -
  have "try_body (Suc j) m cur w0 = Some (Fallthrough, None, w2, Call_get_state # tr)"
    using try_body_acquired[OF assms(2,3), of "Suc j" cur] assms(4)
    by (simp add: assert_released_def)
  then have "iteration (Suc j) m cur w0 = Some (Fallthrough, None, w2, Call_get_state # tr)"
    by (simp add: iteration_def inner_try_def)
  from mainloop_again[OF assms(1) this] assms(5) show ?thesis by simp
qed

lemma sim_get_state_returns:
  assumes "get_state sim w = (Inr (Some s), w1)"
  shows "\<exists>r1. getState (choice w) (registry w) = (Some (id_of s), r1) \<and> w1 = w\<lparr>registry := r1\<rparr>"
proof -
  from assms have nf: "''get_state'' \<notin> set (faults w)"
    and g: "sim_get_state w = (Inr (Some s), w1)"
    by (auto simp: sim_def guarded_def split: if_splits)
  obtain o1 r1 where gs: "getState (choice w) (registry w) = (o1, r1)"
    by (cases "getState (choice w) (registry w)")
  from g gs show ?thesis
    by (cases o1) (auto simp: sim_get_state_def split: option.splits)
qed

subsection \<open>Fork and terminate signals\<close>

text \<open>
  Claim C1, as the code has it. When the body of the inner \<^verbatim>\<open>try\<close> raises a fork
  signal while the unit holds the state \<open>s\<close>, the unit calls \<^verbatim>\<open>fork\<close> with \<open>s\<close> and
  the signal's expression, policy and callback. Whatever \<^verbatim>\<open>fork\<close> returns, a
  successor's id or none, the unit drops the value, releases its current state and
  goes back to the head of the loop; there, when the kill flag is false, its first
  call is \<^verbatim>\<open>get_state\<close>.
\<close>

theorem fork_signal_releases_state:
  assumes "\<not> killed_value m w"
      and "try_body n m cur w = Some (Raised (Concretize msg expr pol sets), Some s, w1, tr)"
      and "fork m (Some s) expr pol sets w1 = (Inr ret, w2)"
  shows "iteration n m cur w = Some (Fallthrough, None, w2, tr @ [Call_fork (Some s) expr pol sets])
       \<and> mainloop (Suc n) m cur w =
           map_option (after (tr @ [Call_fork (Some s) expr pol sets])) (mainloop n m None w2)
       \<and> (\<not> killed_value m w2 \<longrightarrow>
            (\<forall>k r. mainloop k m None w2 = Some r \<longrightarrow> (\<exists>rest. trace_of r = Call_get_state # rest)))"
proof -
  have h: "except_signal m (Concretize msg expr pol sets) (Some s) w1 =
             (Fallthrough, None, w2, [Call_fork (Some s) expr pol sets])"
    using assms(3) by simp
  have i: "iteration n m cur w = Some (Fallthrough, None, w2, tr @ [Call_fork (Some s) expr pol sets])"
    by (rule iteration_handled[OF assms(2) h])
  show ?thesis
    using i mainloop_again[OF assms(1) i] mainloop_starts[of m w2] by blast
qed

theorem fork_signal_witness:
  "mainloop 2 sim None (world1 [Signal (Concretize ''m'' ''x'' ''ALL'' ''cb'')] []) =
     map_option
       (after [Call_get_state, Call_execute state1,
               Call_fork (Some (state1\<lparr>image := 1\<rparr>)) ''x'' ''ALL'' ''cb''])
       (mainloop 1 sim None
          ((world1 [] [])\<lparr>registry := registry1\<lparr>ready := [], states := [], next_id := 3\<rparr>\<rparr>))"
proof -
  let ?w = "world1 [Signal (Concretize ''m'' ''x'' ''ALL'' ''cb'')] []"
  let ?s = "state1\<lparr>image := 1\<rparr>"
  let ?w1 = "(world1 [] [])\<lparr>registry := registry1\<lparr>ready := [], busy := [1]\<rparr>\<rparr>"
  let ?w2 = "(world1 [] [])\<lparr>registry := registry1\<lparr>ready := [], states := [], next_id := 3\<rparr>\<rparr>"
  have h1: "\<not> killed_value sim ?w" by code_simp
  have h2: "try_body 1 sim None ?w =
              Some (Raised (Concretize ''m'' ''x'' ''ALL'' ''cb''), Some ?s, ?w1, [Call_get_state, Call_execute state1])"
    by code_simp
  have h3: "fork sim (Some ?s) ''x'' ''ALL'' ''cb'' ?w1 = (Inr (Some 2), ?w2)" by code_simp
  from fork_signal_releases_state[OF h1 h2 h3]
  show ?thesis by (simp add: numeral_2_eq_2)
qed

text \<open>
  The claim as stated fails: on the registry with the ready state 1, whose advance
  raises a fork signal that the solver resolves to one branch, \<^verbatim>\<open>fork\<close> keeps the
  successor and returns its id 2; the unit's next call is \<^verbatim>\<open>get_state\<close>, which
  finds nothing, and the unit leaves the loop without ever advancing state 2.
\<close>

theorem fork_keep_going_counterexample:
  "fork sim (Some (state1\<lparr>image := 1\<rparr>)) ''x'' ''ALL'' ''cb''
      ((world1 [] [])\<lparr>registry := registry1\<lparr>ready := [], busy := [1]\<rparr>\<rparr>)
     = (Inr (Some 2), (world1 [] [])\<lparr>registry := registry1\<lparr>ready := [], states := [], next_id := 3\<rparr>\<rparr>)
   \<and> run 2 sim 0 (world1 [Signal (Concretize ''m'' ''x'' ''ALL'' ''cb'')] []) =
       Some (Inr (),
             (world1 [] [])\<lparr>registry := registry1\<lparr>ready := [], states := [], next_id := 3\<rparr>\<rparr>,
             [Call_publish ''will_start_worker'' [WorkerArg 0],
              Call_get_state,
              Call_execute state1,
              Call_fork (Some (state1\<lparr>image := 1\<rparr>)) ''x'' ''ALL'' ''cb'',
              Call_get_state,
              Call_publish ''did_terminate_worker'' [WorkerArg 0]])"
  by code_simp

text \<open>
  Claim C5. When the body of the inner \<^verbatim>\<open>try\<close> raises a terminate signal while the
  unit holds the state \<open>s\<close>, and the calls of the handler return, the unit makes,
  after the calls made so far and in this order, the calls
  \<^verbatim>\<open>publish("will_terminate_state", s, exc)\<close>, then, with the signal recorded in
  \<open>terminated_by\<close> of the state, \<^verbatim>\<open>save\<close> under the state's id,
  \<^verbatim>\<open>terminate_state\<close> of that id and \<^verbatim>\<open>publish("did_terminate_state", s, exc)\<close>.
  The pass ends with no current state, the loop goes on from its head, and there,
  when the kill flag is false, the first call is \<^verbatim>\<open>get_state\<close>.
\<close>

theorem terminate_signal_protocol:
  assumes "\<not> killed_value m w"
      and "try_body n m cur w = Some (Raised (TerminateState reason), Some s, w1, tr)"
      and "s' = s\<lparr>terminated_by := Some (TerminateState reason)\<rparr>"
      and "publish m ''will_terminate_state'' [StateArg (Some s), ExcArg (TerminateState reason)] w1 = (Inr (), w2)"
      and "save m s' (id_of s) w2 = (Inr (), w3)"
      and "terminate_state m (id_of s) w3 = (Inr (), w4)"
      and "publish m ''did_terminate_state'' [StateArg (Some s'), ExcArg (TerminateState reason)] w4 = (Inr (), w5)"
  shows "iteration n m cur w =
           Some (Fallthrough, None, w5,
                 tr @ [Call_publish ''will_terminate_state'' [StateArg (Some s), ExcArg (TerminateState reason)],
                       Call_save s' (id_of s),
                       Call_terminate_state (id_of s),
                       Call_publish ''did_terminate_state'' [StateArg (Some s'), ExcArg (TerminateState reason)]])
       \<and> mainloop (Suc n) m cur w =
           map_option
             (after (tr @ [Call_publish ''will_terminate_state'' [StateArg (Some s), ExcArg (TerminateState reason)],
                       Call_save s' (id_of s),
                       Call_terminate_state (id_of s),
                       Call_publish ''did_terminate_state'' [StateArg (Some s'), ExcArg (TerminateState reason)]]))
             (mainloop n m None w5)
       \<and> (\<not> killed_value m w5 \<longrightarrow>
            (\<forall>k r. mainloop k m None w5 = Some r \<longrightarrow> (\<exists>rest. trace_of r = Call_get_state # rest)))"
proof -
  have h: "except_signal m (TerminateState reason) (Some s) w1 =
             (Fallthrough, None, w5,
              [Call_publish ''will_terminate_state'' [StateArg (Some s), ExcArg (TerminateState reason)],
               Call_save s' (id_of s),
               Call_terminate_state (id_of s),
               Call_publish ''did_terminate_state'' [StateArg (Some s'), ExcArg (TerminateState reason)]])"
    using assms(3-7) by (simp add: Let_def)
  have i: "iteration n m cur w =
           Some (Fallthrough, None, w5,
                 tr @ [Call_publish ''will_terminate_state'' [StateArg (Some s), ExcArg (TerminateState reason)],
                       Call_save s' (id_of s),
                       Call_terminate_state (id_of s),
                       Call_publish ''did_terminate_state'' [StateArg (Some s'), ExcArg (TerminateState reason)]])"
    by (rule iteration_handled[OF assms(2) h])
  show ?thesis
    using i mainloop_again[OF assms(1) i] mainloop_starts[of m w5] by blast
qed

theorem terminate_signal_witness:
  "mainloop 2 sim None (world1 [Signal (TerminateState ''done'')] []) =
     map_option
       (after [Call_get_state, Call_execute state1,
               Call_publish ''will_terminate_state''
                 [StateArg (Some (state1\<lparr>image := 1\<rparr>)), ExcArg (TerminateState ''done'')],
               Call_save (state1\<lparr>terminated_by := Some (TerminateState ''done''), image := 1\<rparr>) 1,
               Call_terminate_state 1,
               Call_publish ''did_terminate_state''
                 [StateArg (Some (state1\<lparr>terminated_by := Some (TerminateState ''done''), image := 1\<rparr>)),
                  ExcArg (TerminateState ''done'')]])
       (mainloop 1 sim None
          ((world1 [] [])\<lparr>registry := registry1\<lparr>ready := [], terminated := [1],
             states := [(1, state1\<lparr>terminated_by := Some (TerminateState ''done''), image := 1\<rparr>)]\<rparr>\<rparr>))"
proof -
  let ?w = "world1 [Signal (TerminateState ''done'')] []"
  let ?s = "state1\<lparr>image := 1\<rparr>"
  let ?s' = "state1\<lparr>terminated_by := Some (TerminateState ''done''), image := 1\<rparr>"
  let ?w1 = "(world1 [] [])\<lparr>registry := registry1\<lparr>ready := [], busy := [1]\<rparr>\<rparr>"
  let ?w3 = "(world1 [] [])\<lparr>registry := registry1\<lparr>ready := [], busy := [1], states := [(1, ?s')]\<rparr>\<rparr>"
  let ?w4 = "(world1 [] [])\<lparr>registry := registry1\<lparr>ready := [], terminated := [1], states := [(1, ?s')]\<rparr>\<rparr>"
  have h1: "\<not> killed_value sim ?w" by code_simp
  have h2: "try_body 1 sim None ?w =
              Some (Raised (TerminateState ''done''), Some ?s, ?w1, [Call_get_state, Call_execute state1])"
    by code_simp
  have h3: "?s' = ?s\<lparr>terminated_by := Some (TerminateState ''done'')\<rparr>" by (simp add: state1_def)
  have h4: "publish sim ''will_terminate_state'' [StateArg (Some ?s), ExcArg (TerminateState ''done'')] ?w1 = (Inr (), ?w1)"
    by code_simp
  have h5: "save sim ?s' (id_of ?s) ?w1 = (Inr (), ?w3)" by code_simp
  have h6: "terminate_state sim (id_of ?s) ?w3 = (Inr (), ?w4)" by code_simp
  have h7: "publish sim ''did_terminate_state'' [StateArg (Some ?s'), ExcArg (TerminateState ''done'')] ?w4 = (Inr (), ?w4)"
    by code_simp
  from terminate_signal_protocol[OF h1 h2 h3 h4 h5 h6 h7]
  show ?thesis by (simp add: numeral_2_eq_2 state1_def)
qed

subsection \<open>Failures of the handlers\<close>

text \<open>
  Claim C3. When the handler of a signal itself raises \<open>e\<close>, the outer guard runs on
  \<open>e\<close> as it does on any exception that leaves the inner \<^verbatim>\<open>try\<close>. If the unit held
  no state when the signal came, it holds none now and the loop is left. If it held
  \<open>s0\<close>, it still holds a state with the id of \<open>s0\<close>, and, when the calls of the guard
  return, that state is saved under its id and killed, between the two kill events,
  and the loop is left.
\<close>

theorem handler_failure_is_fatal:
  assumes "\<not> killed_value m w"
      and "try_body n m cur w = Some (Raised sig, cur1, w1, tr1)"
      and "except_signal m sig cur1 w1 = (Raised e, cur2, w2, tr2)"
  shows "iteration n m cur w = Some (after (tr1 @ tr2) (except_fatal m e cur2 w2))
       \<and> (cur1 = None \<longrightarrow>
            cur2 = None \<and> mainloop (Suc n) m cur w = Some (Fallthrough, None, w2, tr1 @ tr2))
       \<and> (\<forall>s0. cur1 = Some s0 \<longrightarrow>
            (\<exists>s. cur2 = Some s \<and> id_of s = id_of s0 \<and>
               (\<forall>w3 w4 w5 w6.
                  publish m ''will_kill_state'' [StateArg (Some s), ExcArg e] w2 = (Inr (), w3) \<longrightarrow>
                  save m s (id_of s) w3 = (Inr (), w4) \<longrightarrow>
                  kill_state m (id_of s) w4 = (Inr (), w5) \<longrightarrow>
                  publish m ''did_kill_state'' [StateArg (Some s), ExcArg e] w5 = (Inr (), w6) \<longrightarrow>
                  mainloop (Suc n) m cur w =
                    Some (Fallthrough, None, w6,
                          tr1 @ tr2 @
                          [Call_publish ''will_kill_state'' [StateArg (Some s), ExcArg e],
                           Call_save s (id_of s),
                           Call_kill_state (id_of s),
                           Call_publish ''did_kill_state'' [StateArg (Some s), ExcArg e]]))))"
proof (intro conjI impI allI)
  have inner: "inner_try n m cur w = Some (Raised e, cur2, w2, tr1 @ tr2)"
    using inner_try_raised[OF assms(2)] assms(3) by simp
  show it: "iteration n m cur w = Some (after (tr1 @ tr2) (except_fatal m e cur2 w2))"
    by (rule iteration_raised[OF inner])
  {
    assume "cur1 = None"
    with assms(3) show c2: "cur2 = None" by (auto dest: except_signal_raised_nothing)
    with it have "iteration n m cur w = Some (BreakLoop, None, w2, tr1 @ tr2)"
      by (simp add: except_fatal_def)
    from mainloop_break[OF assms(1) this]
    show "mainloop (Suc n) m cur w = Some (Fallthrough, None, w2, tr1 @ tr2)" .
  }
  {
    fix s0
    assume "cur1 = Some s0"
    with assms(3) obtain s where s: "cur2 = Some s" "id_of s = id_of s0"
      by (auto dest: except_signal_raised_some)
    have "\<forall>w3 w4 w5 w6.
                  publish m ''will_kill_state'' [StateArg (Some s), ExcArg e] w2 = (Inr (), w3) \<longrightarrow>
                  save m s (id_of s) w3 = (Inr (), w4) \<longrightarrow>
                  kill_state m (id_of s) w4 = (Inr (), w5) \<longrightarrow>
                  publish m ''did_kill_state'' [StateArg (Some s), ExcArg e] w5 = (Inr (), w6) \<longrightarrow>
                  mainloop (Suc n) m cur w =
                    Some (Fallthrough, None, w6,
                          tr1 @ tr2 @
                          [Call_publish ''will_kill_state'' [StateArg (Some s), ExcArg e],
                           Call_save s (id_of s),
                           Call_kill_state (id_of s),
                           Call_publish ''did_kill_state'' [StateArg (Some s), ExcArg e]])"
    proof (intro allI impI)
      fix w3 w4 w5 w6
      assume a: "publish m ''will_kill_state'' [StateArg (Some s), ExcArg e] w2 = (Inr (), w3)"
         and b: "save m s (id_of s) w3 = (Inr (), w4)"
         and c: "kill_state m (id_of s) w4 = (Inr (), w5)"
         and d: "publish m ''did_kill_state'' [StateArg (Some s), ExcArg e] w5 = (Inr (), w6)"
      have "iteration n m cur w =
              Some (BreakLoop, None, w6,
                    tr1 @ tr2 @
                    [Call_publish ''will_kill_state'' [StateArg (Some s), ExcArg e],
                     Call_save s (id_of s),
                     Call_kill_state (id_of s),
                     Call_publish ''did_kill_state'' [StateArg (Some s), ExcArg e]])"
        using it s(1) except_fatal_held[OF a b c d] by simp
      from mainloop_break[OF assms(1) this]
      show "mainloop (Suc n) m cur w =
                    Some (Fallthrough, None, w6,
                          tr1 @ tr2 @
                          [Call_publish ''will_kill_state'' [StateArg (Some s), ExcArg e],
                           Call_save s (id_of s),
                           Call_kill_state (id_of s),
                           Call_publish ''did_kill_state'' [StateArg (Some s), ExcArg e]])" .
    qed
    with s show "\<exists>s. cur2 = Some s \<and> id_of s = id_of s0 \<and>
               (\<forall>w3 w4 w5 w6.
                  publish m ''will_kill_state'' [StateArg (Some s), ExcArg e] w2 = (Inr (), w3) \<longrightarrow>
                  save m s (id_of s) w3 = (Inr (), w4) \<longrightarrow>
                  kill_state m (id_of s) w4 = (Inr (), w5) \<longrightarrow>
                  publish m ''did_kill_state'' [StateArg (Some s), ExcArg e] w5 = (Inr (), w6) \<longrightarrow>
                  mainloop (Suc n) m cur w =
                    Some (Fallthrough, None, w6,
                          tr1 @ tr2 @
                          [Call_publish ''will_kill_state'' [StateArg (Some s), ExcArg e],
                           Call_save s (id_of s),
                           Call_kill_state (id_of s),
                           Call_publish ''did_kill_state'' [StateArg (Some s), ExcArg e]]))"
      by blast
  }
qed

theorem handler_failure_witness:
  "mainloop 2 sim None (world1 [Signal (TerminateState ''done'')] [''save'']) =
     Some (Fallthrough, None,
           (world1 [] [])\<lparr>registry := registry1\<lparr>ready := [], killed := [1],
              states := [(1, state1\<lparr>terminated_by := Some (TerminateState ''done''), image := 1\<rparr>)]\<rparr>\<rparr>,
           [Call_get_state, Call_execute state1,
            Call_publish ''will_terminate_state''
              [StateArg (Some (state1\<lparr>image := 1\<rparr>)), ExcArg (TerminateState ''done'')],
            Call_save (state1\<lparr>terminated_by := Some (TerminateState ''done''), image := 1\<rparr>) 1,
            Call_publish ''will_kill_state''
              [StateArg (Some (state1\<lparr>terminated_by := Some (TerminateState ''done''), image := 1\<rparr>)),
               ExcArg (Exception ''save'')],
            Call_save (state1\<lparr>terminated_by := Some (TerminateState ''done''), image := 1\<rparr>) 1,
            Call_kill_state 1,
            Call_publish ''did_kill_state''
              [StateArg (Some (state1\<lparr>terminated_by := Some (TerminateState ''done''), image := 1\<rparr>)),
               ExcArg (Exception ''save'')]])"
proof -
  let ?w = "world1 [Signal (TerminateState ''done'')] [''save'']"
  let ?s = "state1\<lparr>image := 1\<rparr>"
  let ?s' = "state1\<lparr>terminated_by := Some (TerminateState ''done''), image := 1\<rparr>"
  let ?w1 = "(world1 [] [''save''])\<lparr>registry := registry1\<lparr>ready := [], busy := [1]\<rparr>\<rparr>"
  let ?w2 = "(world1 [] [])\<lparr>registry := registry1\<lparr>ready := [], busy := [1]\<rparr>\<rparr>"
  let ?w4 = "(world1 [] [])\<lparr>registry := registry1\<lparr>ready := [], busy := [1], states := [(1, ?s')]\<rparr>\<rparr>"
  let ?w5 = "(world1 [] [])\<lparr>registry := registry1\<lparr>ready := [], killed := [1], states := [(1, ?s')]\<rparr>\<rparr>"
  let ?e = "Exception ''save''"
  have h1: "\<not> killed_value sim ?w" by code_simp
  have h2: "try_body 1 sim None ?w =
              Some (Raised (TerminateState ''done''), Some ?s, ?w1, [Call_get_state, Call_execute state1])"
    by code_simp
  have h3: "except_signal sim (TerminateState ''done'') (Some ?s) ?w1 =
              (Raised ?e, Some ?s', ?w2,
               [Call_publish ''will_terminate_state'' [StateArg (Some ?s), ExcArg (TerminateState ''done'')],
                Call_save ?s' 1])"
    by code_simp
  have g1: "publish sim ''will_kill_state'' [StateArg (Some ?s'), ExcArg ?e] ?w2 = (Inr (), ?w2)" by code_simp
  have g2: "save sim ?s' (id_of ?s') ?w2 = (Inr (), ?w4)" by code_simp
  have g3: "kill_state sim (id_of ?s') ?w4 = (Inr (), ?w5)" by code_simp
  have g4: "publish sim ''did_kill_state'' [StateArg (Some ?s'), ExcArg ?e] ?w5 = (Inr (), ?w5)" by code_simp
  from handler_failure_is_fatal[OF h1 h2 h3]
  have "\<exists>s. Some ?s' = Some s \<and> id_of s = id_of ?s \<and>
               (\<forall>w3 w4 w5 w6.
                  publish sim ''will_kill_state'' [StateArg (Some s), ExcArg ?e] ?w2 = (Inr (), w3) \<longrightarrow>
                  save sim s (id_of s) w3 = (Inr (), w4) \<longrightarrow>
                  kill_state sim (id_of s) w4 = (Inr (), w5) \<longrightarrow>
                  publish sim ''did_kill_state'' [StateArg (Some s), ExcArg ?e] w5 = (Inr (), w6) \<longrightarrow>
                  mainloop (Suc 1) sim None ?w =
                    Some (Fallthrough, None, w6,
                          [Call_get_state, Call_execute state1] @
                          [Call_publish ''will_terminate_state'' [StateArg (Some ?s), ExcArg (TerminateState ''done'')],
                           Call_save ?s' 1] @
                          [Call_publish ''will_kill_state'' [StateArg (Some s), ExcArg ?e],
                           Call_save s (id_of s),
                           Call_kill_state (id_of s),
                           Call_publish ''did_kill_state'' [StateArg (Some s), ExcArg ?e]]))"
    by blast
  then have "mainloop (Suc 1) sim None ?w =
                    Some (Fallthrough, None, ?w5,
                          [Call_get_state, Call_execute state1] @
                          [Call_publish ''will_terminate_state'' [StateArg (Some ?s), ExcArg (TerminateState ''done'')],
                           Call_save ?s' 1] @
                          [Call_publish ''will_kill_state'' [StateArg (Some ?s'), ExcArg ?e],
                           Call_save ?s' (id_of ?s'),
                           Call_kill_state (id_of ?s'),
                           Call_publish ''did_kill_state'' [StateArg (Some ?s'), ExcArg ?e]])"
    using g1 g2 g3 g4 by blast
  then show ?thesis by (simp add: numeral_2_eq_2 state1_def)
qed

subsection \<open>The kill flag\<close>

text \<open>
  Claim C4. When the drive step reads the kill flag true while the unit holds the
  state \<open>s\<close>, and \<^verbatim>\<open>save\<close> and \<^verbatim>\<open>revive_state\<close> return, the unit calls
  \<^verbatim>\<open>save(s, s.id)\<close> and then \<^verbatim>\<open>revive_state(s.id)\<close> and holds no state; the
  assertion after the drive step passes; and, the flag being still true, the loop is
  left at its head with no further call, so that a pass whose drive step ends in
  this way ends the loop with \<^verbatim>\<open>get_state\<close> called once. On a registry
  that has the id in busy, the two operations leave the id in ready and not in busy,
  with \<open>s\<close> as its record, and a later \<^verbatim>\<open>getState\<close> can pick it.
\<close>

theorem kill_flag_checkpoint_and_exit:
  assumes "killed_value m w"
      and "save m s (id_of s) w = (Inr (), w1)"
      and "revive_state m (id_of s) w1 = (Inr (), w2)"
      and "killed_value m w2"
  shows "drive (Suc n) m s w =
           Some (Fallthrough, None, w2, [Call_save s (id_of s), Call_revive_state (id_of s)])
       \<and> assert_released (Fallthrough, None, w2, [Call_save s (id_of s), Call_revive_state (id_of s)]) =
           (Fallthrough, None, w2, [Call_save s (id_of s), Call_revive_state (id_of s)])
       \<and> mainloop (Suc k) m None w2 = Some (Fallthrough, None, w2, [])
       \<and> (\<forall>cur w0 s0 wa j tr.
             \<not> killed_value m w0 \<longrightarrow> get_state m w0 = (Inr (Some s0), wa) \<longrightarrow> acquired_ok m s0 wa \<longrightarrow>
             drive (Suc j) m s0 wa = Some (Fallthrough, None, w2, tr) \<longrightarrow>
             mainloop (Suc (Suc j)) m cur w0 = Some (Fallthrough, None, w2, Call_get_state # tr))
       \<and> (\<forall>r. registry_ok r \<longrightarrow> id_of s \<in> set (busy r) \<longrightarrow>
            (\<exists>r'. reviveState (id_of s) (saveState s (id_of s) r) = Some r'
               \<and> id_of s \<in> set (ready r') \<and> id_of s \<notin> set (busy r')
               \<and> map_of (states r') (id_of s) = Some s
               \<and> fst (getState (length (ready r)) r') = Some (id_of s)))"
proof (intro conjI allI impI)
  show "drive (Suc n) m s w =
           Some (Fallthrough, None, w2, [Call_save s (id_of s), Call_revive_state (id_of s)])"
    using assms(1) stopped_returns[OF assms(2,3)] by simp
  show "assert_released (Fallthrough, None, w2, [Call_save s (id_of s), Call_revive_state (id_of s)]) =
           (Fallthrough, None, w2, [Call_save s (id_of s), Call_revive_state (id_of s)])"
    by (simp add: assert_released_def)
  show "mainloop (Suc k) m None w2 = Some (Fallthrough, None, w2, [])"
    using assms(4) by simp
next
  fix cur w0 s0 wa j tr
  assume "\<not> killed_value m w0" "get_state m w0 = (Inr (Some s0), wa)" "acquired_ok m s0 wa"
    "drive (Suc j) m s0 wa = Some (Fallthrough, None, w2, tr)"
  then show "mainloop (Suc (Suc j)) m cur w0 = Some (Fallthrough, None, w2, Call_get_state # tr)"
    using assms(4) by (rule pass_ending_in_checkpoint)
next
  fix r
  assume "registry_ok r" "id_of s \<in> set (busy r)"
  then show "\<exists>r'. reviveState (id_of s) (saveState s (id_of s) r) = Some r'
               \<and> id_of s \<in> set (ready r') \<and> id_of s \<notin> set (busy r')
               \<and> map_of (states r') (id_of s) = Some s
               \<and> fst (getState (length (ready r)) r') = Some (id_of s)"
    by (rule revive_after_save)
qed

theorem kill_flag_checkpoint_witness:
  "drive 1 sim (state1\<lparr>image := 1\<rparr>)
      ((world1 [] [])\<lparr>registry := registry1\<lparr>ready := [], busy := [1], kill_flag := True\<rparr>\<rparr>) =
     Some (Fallthrough, None,
           (world1 [] [])\<lparr>registry := registry1\<lparr>states := [(1, state1\<lparr>image := 1\<rparr>)], kill_flag := True\<rparr>\<rparr>,
           [Call_save (state1\<lparr>image := 1\<rparr>) 1, Call_revive_state 1])
   \<and> mainloop 3 sim None (world1 [KillRequest] []) =
       Some (Fallthrough, None,
             (world1 [] [])\<lparr>registry := registry1\<lparr>states := [(1, state1\<lparr>image := 1\<rparr>)], kill_flag := True\<rparr>\<rparr>,
             [Call_get_state, Call_execute state1, Call_save (state1\<lparr>image := 1\<rparr>) 1, Call_revive_state 1])
   \<and> reviveState 1 (saveState (state1\<lparr>image := 1\<rparr>) 1 (registry1\<lparr>ready := [], busy := [1]\<rparr>)) =
       Some (registry1\<lparr>states := [(1, state1\<lparr>image := 1\<rparr>)]\<rparr>)
   \<and> getState 0 (registry1\<lparr>states := [(1, state1\<lparr>image := 1\<rparr>)]\<rparr>) =
       (Some 1, registry1\<lparr>ready := [], busy := [1], states := [(1, state1\<lparr>image := 1\<rparr>)]\<rparr>)"
proof -
  let ?s = "state1\<lparr>image := 1\<rparr>"
  let ?r = "registry1\<lparr>ready := [], busy := [1]\<rparr>"
  let ?w = "(world1 [] [])\<lparr>registry := registry1\<lparr>ready := [], busy := [1], kill_flag := True\<rparr>\<rparr>"
  let ?w1 = "(world1 [] [])\<lparr>registry := registry1\<lparr>ready := [], busy := [1], states := [(1, ?s)], kill_flag := True\<rparr>\<rparr>"
  let ?w2 = "(world1 [] [])\<lparr>registry := registry1\<lparr>states := [(1, ?s)], kill_flag := True\<rparr>\<rparr>"
  let ?v = "world1 [KillRequest] []"
  let ?va = "(world1 [KillRequest] [])\<lparr>registry := ?r\<rparr>"
  have h1: "killed_value sim ?w" by code_simp
  have h2: "save sim ?s (id_of ?s) ?w = (Inr (), ?w1)" by code_simp
  have h3: "revive_state sim (id_of ?s) ?w1 = (Inr (), ?w2)" by code_simp
  have h4: "killed_value sim ?w2" by code_simp
  have p1: "\<not> killed_value sim ?v" by code_simp
  have p2: "get_state sim ?v = (Inr (Some state1), ?va)" by code_simp
  have p3: "acquired_ok sim state1 ?va" by code_simp
  have p4: "drive (Suc 1) sim state1 ?va =
              Some (Fallthrough, None, ?w2, [Call_execute state1, Call_save ?s 1, Call_revive_state 1])"
    by code_simp
  have q3: "reviveState 1 (saveState ?s 1 ?r) = Some (registry1\<lparr>states := [(1, ?s)]\<rparr>)" by code_simp
  have q4: "getState 0 (registry1\<lparr>states := [(1, ?s)]\<rparr>) =
              (Some 1, registry1\<lparr>ready := [], busy := [1], states := [(1, ?s)]\<rparr>)"
    by code_simp
  note t = kill_flag_checkpoint_and_exit[OF h1 h2 h3 h4, of 0 0]
  from t have a: "drive (Suc 0) sim ?s ?w =
      Some (Fallthrough, None, ?w2, [Call_save ?s (id_of ?s), Call_revive_state (id_of ?s)])"
    by blast
  from t p1 p2 p3 p4 have b: "mainloop (Suc (Suc 1)) sim None ?v =
      Some (Fallthrough, None, ?w2, Call_get_state # [Call_execute state1, Call_save ?s 1, Call_revive_state 1])"
    by blast
  have n3: "(3::nat) = Suc (Suc 1)" by simp
  from a b q3 q4 show ?thesis
    unfolding n3 by (simp add: state1_def)
qed

subsection \<open>Acquisition\<close>

text \<open>
  Claim C8. On a registry that satisfies its invariant, the id that \<^verbatim>\<open>getState\<close>
  returns is in busy and not in ready afterwards. So the coordinator built on the
  registry passes the assertion of lines 120-123 and the unit goes on to the drive
  step; and so does every coordinator whose \<^verbatim>\<open>get_state\<close> returns a state that is
  in its busy list and not in its ready list.
\<close>

theorem acquired_state_is_busy_and_not_ready:
  "(registry_ok r \<longrightarrow> getState k r = (Some i, r') \<longrightarrow> i \<in> set (busy r') \<and> i \<notin> set (ready r'))
   \<and> (registry_ok (registry w) \<longrightarrow> get_state sim w = (Inr (Some s), w1) \<longrightarrow>
        acquired_ok sim s w1
        \<and> try_body n sim cur w =
            map_option (\<lambda>x. after [Call_get_state] (assert_released x)) (drive n sim s w1))
   \<and> (get_state m v = (Inr (Some s'), v1) \<longrightarrow>
        id_of s' \<in> set (busy_states m v1) \<longrightarrow> id_of s' \<notin> set (ready_states m v1) \<longrightarrow>
        try_body n m cur' v =
          map_option (\<lambda>x. after [Call_get_state] (assert_released x)) (drive n m s' v1))"
proof (intro conjI impI)
  assume "registry_ok r" "getState k r = (Some i, r')"
  then show "i \<in> set (busy r')" "i \<notin> set (ready r')"
    using getState_moves[of r k i r'] by simp_all
next
  assume ok: "registry_ok (registry w)" and g: "get_state sim w = (Inr (Some s), w1)"
  from sim_get_state_returns[OF g] obtain r1 where
    r1: "getState (choice w) (registry w) = (Some (id_of s), r1)" "w1 = w\<lparr>registry := r1\<rparr>"
    by blast
  from getState_moves[OF ok r1(1)] r1(2)
  show a: "acquired_ok sim s w1" by (simp add: acquired_ok_def sim_def)
  show "try_body n sim cur w =
            map_option (\<lambda>x. after [Call_get_state] (assert_released x)) (drive n sim s w1)"
    by (rule try_body_acquired[OF g a])
next
  assume "get_state m v = (Inr (Some s'), v1)"
    "id_of s' \<in> set (busy_states m v1)" "id_of s' \<notin> set (ready_states m v1)"
  then show "try_body n m cur' v =
          map_option (\<lambda>x. after [Call_get_state] (assert_released x)) (drive n m s' v1)"
    by (simp add: try_body_acquired acquired_ok_def)
qed

theorem acquired_state_witness:
  "registry_ok registry1
   \<and> getState 0 registry1 = (Some 1, registry1\<lparr>ready := [], busy := [1]\<rparr>)
   \<and> 1 \<in> set (busy (registry1\<lparr>ready := [], busy := [1]\<rparr>))
   \<and> 1 \<notin> set (ready (registry1\<lparr>ready := [], busy := [1]\<rparr>))
   \<and> get_state sim (world1 [] []) = (Inr (Some state1), (world1 [] [])\<lparr>registry := registry1\<lparr>ready := [], busy := [1]\<rparr>\<rparr>)
   \<and> acquired_ok sim state1 ((world1 [] [])\<lparr>registry := registry1\<lparr>ready := [], busy := [1]\<rparr>\<rparr>)"
proof -
  let ?r' = "registry1\<lparr>ready := [], busy := [1]\<rparr>"
  let ?w1 = "(world1 [] [])\<lparr>registry := ?r'\<rparr>"
  have ok: "registry_ok registry1" by (simp add: registry_ok_def registry1_def)
  have ok': "registry_ok (registry (world1 [] []))" using ok by (simp add: world1_def)
  have g: "getState 0 registry1 = (Some 1, ?r')" by code_simp
  have gs: "get_state sim (world1 [] []) = (Inr (Some state1), ?w1)" by code_simp
  from acquired_state_is_busy_and_not_ready
         [of registry1 0 1 ?r' "world1 [] []" state1 ?w1 0 None sim "world1 [] []" state1 ?w1 None]
       ok ok' g gs
  show ?thesis by blast
qed


section \<open>Properties of the state snapshot\<close>

text \<open>
  The snapshot never raises: it has one record for every descriptor that is not
  destroyed, in the order of the dictionary, with the descriptor's id, the constant
  of its list, its termination message, its execution counter and the wait time
  that the float arithmetic gives.
\<close>

lemma type_of_list_total:
  "map_of type_of_list l =
     Some (case l of StateLists_ready \<Rightarrow> State_READY | StateLists_busy \<Rightarrow> State_BUSY
           | StateLists_terminated \<Rightarrow> State_TERMINATED | StateLists_killed \<Rightarrow> State_KILLED)"
  by (cases l) (simp_all add: type_of_list_def)

lemma render_loop_eq:
  "render_loop clock k sts out =
     Inr (out @
          map (\<lambda>(j, st).
                 \<lparr>State_id = state_id st,
                  State_type = (case state_list st of StateLists_ready \<Rightarrow> State_READY | StateLists_busy \<Rightarrow> State_BUSY
                                | StateLists_terminated \<Rightarrow> State_TERMINATED | StateLists_killed \<Rightarrow> State_KILLED),
                  State_reason = termination_msg st,
                  State_num_executing = own_execs st,
                  State_wait_time = wait_time (clock j) st\<rparr>)
              (zip [k ..< k + length (filter (\<lambda>st. status st \<noteq> destroyed) sts)]
                   (filter (\<lambda>st. status st \<noteq> destroyed) sts)))"
proof (induction sts arbitrary: k out)
  case Nil
  then show ?case by simp
next
  case (Cons st sts)
  show ?case
  proof (cases "status st = destroyed")
    case True
    then show ?thesis using Cons.IH[of k out] by simp
  next
    case False
    then show ?thesis
      using Cons.IH[of "k + 1"] by (simp add: type_of_list_total upt_conv_Cons del: upt_Suc)
  qed
qed

lemma dump_states_eq:
  "dump_states clock desc =
     Inr (map (\<lambda>(j, st).
                 \<lparr>State_id = state_id st,
                  State_type = (case state_list st of StateLists_ready \<Rightarrow> State_READY | StateLists_busy \<Rightarrow> State_BUSY
                                | StateLists_terminated \<Rightarrow> State_TERMINATED | StateLists_killed \<Rightarrow> State_KILLED),
                  State_reason = termination_msg st,
                  State_num_executing = own_execs st,
                  State_wait_time = wait_time (clock j) st\<rparr>)
              (zip [0 ..< length (filter (\<lambda>st. status st \<noteq> destroyed) (map snd desc))]
                   (filter (\<lambda>st. status st \<noteq> destroyed) (map snd desc))))"
  by (simp add: dump_states_def render_state_descriptors_def render_loop_eq)

text \<open>
  Claim C7, at an input where the code departs from it. For a descriptor whose list
  membership changed at time 0 and a clock that reads 1001000 microseconds, 1001
  whole milliseconds have elapsed, and the record's wait time is 1000: the quotient
  1001000 / 10 ^ 6 is rounded to the nearest double, and the product of that double
  with 1000, rounded again, lies just below 1001.
\<close>

theorem wait_time_one_millisecond_short:
  "dump_states (\<lambda>k. 1001000) [(7, descriptor7)] =
     Inr [\<lparr>State_id = 7, State_type = State_BUSY, State_reason = None,
           State_num_executing = Some 12, State_wait_time = 1000\<rparr>]
   \<and> map_of (field_updated_at descriptor7) ''state_list'' = Some 0
   \<and> (1001000 - 0) div 1000 = (1001 :: int)"
  by code_simp


end
